theory Spec2Isabelle
  imports Main
begin

section \<open>Python values used by the validation framework\<close>

text \<open>
  The program is \<^verbatim>\<open>Testing_and_Validation.py\<close>. A Python \<^verbatim>\<open>str\<close> is modelled as a
  \<^typ>\<open>string\<close> whose characters are the code points 0..255 (ASCII and Latin-1), one
  \<^typ>\<open>char\<close> per code point. The character classes below are the ones Python's \<^verbatim>\<open>re\<close>
  and \<^verbatim>\<open>str\<close> use on these code points: \<^verbatim>\<open>\d\<close> is the decimal digits, \<^verbatim>\<open>\w\<close> is
  \<^verbatim>\<open>str.isalnum\<close> or the underscore, \<^verbatim>\<open>\s\<close> is \<^verbatim>\<open>str.isspace\<close>. Texts with code points
  above 255 are outside the model.
\<close>

datatype py_error = ValueError | OverflowError | AttributeError | ZeroDivisionError

definition code :: "char \<Rightarrow> nat" where
  "code c = of_char c"

definition is_digit :: "char \<Rightarrow> bool" where
  "is_digit c = (48 \<le> code c \<and> code c \<le> 57)"

definition is_word :: "char \<Rightarrow> bool" where
  "is_word c = (let n = code c in
     (48 \<le> n \<and> n \<le> 57) \<or> (65 \<le> n \<and> n \<le> 90) \<or> n = 95 \<or> (97 \<le> n \<and> n \<le> 122) \<or>
     n = 170 \<or> n = 178 \<or> n = 179 \<or> n = 181 \<or> n = 185 \<or> n = 186 \<or>
     (188 \<le> n \<and> n \<le> 190) \<or> (192 \<le> n \<and> n \<le> 214) \<or> (216 \<le> n \<and> n \<le> 246) \<or>
     (248 \<le> n \<and> n \<le> 255))"

definition is_space :: "char \<Rightarrow> bool" where
  "is_space c = (let n = code c in
     (9 \<le> n \<and> n \<le> 13) \<or> (28 \<le> n \<and> n \<le> 32) \<or> n = 133 \<or> n = 160)"

text \<open>\<^verbatim>\<open>str.lower()\<close>: the upper-case letters of ASCII and Latin-1 move up by 32.\<close>

definition lower_char :: "char \<Rightarrow> char" where
  "lower_char c = (let n = code c in
     if (65 \<le> n \<and> n \<le> 90) \<or> (192 \<le> n \<and> n \<le> 214) \<or> (216 \<le> n \<and> n \<le> 222)
     then char_of (n + 32) else c)"

definition lower :: "string \<Rightarrow> string" where
  "lower s = map lower_char s"

text \<open>\<^verbatim>\<open>a in b\<close> on strings: \<open>a\<close> occurs in \<open>b\<close> as a contiguous run.\<close>

fun starts_with :: "string \<Rightarrow> string \<Rightarrow> bool" where
  "starts_with [] s = True"
| "starts_with (a # as) [] = False"
| "starts_with (a # as) (c # cs) = (a = c \<and> starts_with as cs)"

fun str_in :: "string \<Rightarrow> string \<Rightarrow> bool" where
  "str_in a [] = (a = [])"
| "str_in a (c # cs) = (starts_with a (c # cs) \<or> str_in a cs)"

text \<open>\<^verbatim>\<open>s.rstrip('%')\<close> and \<^verbatim>\<open>s.strip()\<close>.\<close>

definition rstrip_char :: "char \<Rightarrow> string \<Rightarrow> string" where
  "rstrip_char x s = rev (dropWhile (\<lambda>c. c = x) (rev s))"

definition strip :: "string \<Rightarrow> string" where
  "strip s = rev (dropWhile is_space (rev (dropWhile is_space s)))"

section \<open>The regular expressions of the program\<close>

text \<open>
  The program calls \<^verbatim>\<open>re.findall\<close> and \<^verbatim>\<open>re.search\<close> with four patterns. They are
  built from a character class, the word boundary \<^verbatim>\<open>\b\<close>, sequence, the greedy
  repetitions \<^verbatim>\<open>+\<close> and \<^verbatim>\<open>*\<close> of a class, and the greedy option \<^verbatim>\<open>?\<close>. A position
  in the text is the character before it (if any) and the text from it on. \<open>rx_match\<close>
  lists the positions where a match that starts at the given position can end, in the
  order in which Python's backtracking matcher tries them; the match found is the first.
\<close>

datatype cclass = Digit | Space | Lit char

fun in_class :: "cclass \<Rightarrow> char \<Rightarrow> bool" where
  "in_class Digit c = is_digit c"
| "in_class Space c = is_space c"
| "in_class (Lit x) c = (c = x)"

datatype rx = One cclass | Boundary | Seq rx rx | Plus cclass | Star cclass | Opt rx

type_synonym pos = "char option \<times> string"

definition word_before :: "char option \<Rightarrow> bool" where
  "word_before pv = (case pv of None \<Rightarrow> False | Some c \<Rightarrow> is_word c)"

definition word_after :: "string \<Rightarrow> bool" where
  "word_after s = (case s of [] \<Rightarrow> False | c # _ \<Rightarrow> is_word c)"

definition at_boundary :: "char option \<Rightarrow> string \<Rightarrow> bool" where
  "at_boundary pv s = (word_before pv \<noteq> word_after s)"

text \<open>The character before the position reached from \<open>pv\<close> by reading \<open>ds\<close>.\<close>

definition lastopt :: "char option \<Rightarrow> string \<Rightarrow> char option" where
  "lastopt pv ds = (if ds = [] then pv else Some (last ds))"

fun greedy :: "cclass \<Rightarrow> char option \<Rightarrow> string \<Rightarrow> pos list" where
  "greedy k pv [] = [(pv, [])]"
| "greedy k pv (c # cs) =
     (if in_class k c then greedy k (Some c) cs @ [(pv, c # cs)] else [(pv, c # cs)])"

fun rx_match :: "rx \<Rightarrow> pos \<Rightarrow> pos list" where
  "rx_match (One k) (pv, s) =
     (case s of [] \<Rightarrow> [] | c # cs \<Rightarrow> if in_class k c then [(Some c, cs)] else [])"
| "rx_match Boundary (pv, s) = (if at_boundary pv s then [(pv, s)] else [])"
| "rx_match (Seq a b) p = concat (map (rx_match b) (rx_match a p))"
| "rx_match (Plus k) (pv, s) =
     (case s of [] \<Rightarrow> [] | c # cs \<Rightarrow> if in_class k c then greedy k (Some c) cs else [])"
| "rx_match (Star k) (pv, s) = greedy k pv s"
| "rx_match (Opt a) p = rx_match a p @ [p]"

text \<open>
  \<^verbatim>\<open>re.findall\<close>: scan from the left; where the pattern matches, keep the matched text
  and go on from the end of the match; elsewhere move one character on. None of the
  program's patterns matches the empty string; an empty match is recorded and the scan
  moves one character on.
\<close>

function findall_from :: "rx \<Rightarrow> char option \<Rightarrow> string \<Rightarrow> string list" where
  "findall_from r pv s =
     (case rx_match r (pv, s) of
        [] \<Rightarrow> (case s of [] \<Rightarrow> [] | c # cs \<Rightarrow> findall_from r (Some c) cs)
      | (pv', s') # _ \<Rightarrow>
          if length s' < length s
          then take (length s - length s') s # findall_from r pv' s'
          else [] # (case s of [] \<Rightarrow> [] | c # cs \<Rightarrow> findall_from r (Some c) cs))"
  by pat_completeness auto
termination
  by (relation "measure (\<lambda>(r, pv, s). length s)") auto

declare findall_from.simps [simp del]

definition findall :: "rx \<Rightarrow> string \<Rightarrow> string list" where
  "findall r text = findall_from r None text"

text \<open>\<^verbatim>\<open>bool(re.search(r, text))\<close>: does the pattern match at some position.\<close>

fun search_from :: "rx \<Rightarrow> char option \<Rightarrow> string \<Rightarrow> bool" where
  "search_from r pv [] = (rx_match r (pv, []) \<noteq> [])"
| "search_from r pv (c # cs) = (rx_match r (pv, c # cs) \<noteq> [] \<or> search_from r (Some c) cs)"

definition search :: "rx \<Rightarrow> string \<Rightarrow> bool" where
  "search r text = search_from r None text"

text \<open>\<^verbatim>\<open>\.\d+\<close> and \<^verbatim>\<open>\d+(?:\.\d+)?\<close>, shared by two patterns; \<^verbatim>\<open>\s*%\<close>.\<close>

definition rx_fraction :: rx where
  "rx_fraction = Seq (One (Lit CHR ''.'')) (Plus Digit)"

definition rx_decimal :: rx where
  "rx_decimal = Seq (Plus Digit) (Opt rx_fraction)"

definition rx_percent_sign :: rx where
  "rx_percent_sign = Seq (Star Space) (One (Lit CHR ''%''))"

text \<open>\<^verbatim>\<open>r'\b\d+(?:\.\d+)?\b'\<close>\<close>

definition rx_number :: rx where
  "rx_number = Seq Boundary (Seq rx_decimal Boundary)"

text \<open>\<^verbatim>\<open>r'\b\d+(?:\.\d+)?\s*%'\<close>\<close>

definition rx_percent :: rx where
  "rx_percent = Seq Boundary (Seq rx_decimal rx_percent_sign)"

text \<open>\<^verbatim>\<open>r'\b\d+\b'\<close>\<close>

definition rx_integer :: rx where
  "rx_integer = Seq Boundary (Seq (Plus Digit) Boundary)"

text \<open>\<^verbatim>\<open>r'\d'\<close>\<close>

definition rx_digit :: rx where
  "rx_digit = One Digit"

section \<open>Floating-point numbers\<close>

text \<open>
  A Python \<^verbatim>\<open>float\<close> is an IEEE 754 double. A finite double is \<open>Fin m e\<close>, the number
  \<open>m * 2 ^ e\<close>, kept in canonical form: zero is \<open>Fin 0 0\<close>, a normal number has
  \<open>2 ^ 52 \<le> \<bar>m\<bar> < 2 ^ 53\<close>, a subnormal one has \<open>e = -1074\<close>. Every operation
  rounds its exact result to the nearest double, ties to the even mantissa, and
  overflows to an infinity from \<open>2 ^ 1024 - 2 ^ 970\<close> on. The sign of zero is not kept
  (the program never observes it).
\<close>

datatype pyfloat = Fin int int | PInf | NInf | NaN

fun bit_length :: "nat \<Rightarrow> nat" where
  "bit_length n = (if n = 0 then 0 else Suc (bit_length (n div 2)))"

declare bit_length.simps [simp del]

text \<open>\<open>n / d\<close> rounded to the nearest integer, a tie to the even one.\<close>

definition rhe_div :: "nat \<Rightarrow> nat \<Rightarrow> nat" where
  "rhe_div n d = (let q = n div d; r = n mod d in
     if 2 * r < d \<or> (2 * r = d \<and> even q) then q else q + 1)"

text \<open>The exponent of the binade of \<open>n / d\<close>, for positive \<open>n\<close> and \<open>d\<close>.\<close>

definition floor_log2 :: "nat \<Rightarrow> nat \<Rightarrow> int" where
  "floor_log2 n d = (let k = int (bit_length n) - int (bit_length d) in
     if (if 0 \<le> k then d * 2 ^ nat k \<le> n else d \<le> n * 2 ^ nat (- k)) then k else k - 1)"

text \<open>The double nearest to \<open>n / d\<close> (\<open>d > 0\<close>) as mantissa and exponent; \<open>None\<close> on overflow.\<close>

definition nearest_double :: "nat \<Rightarrow> nat \<Rightarrow> (nat \<times> int) option" where
  "nearest_double n d =
     (if n = 0 then Some (0, 0)
      else let q = max (floor_log2 n d) (- 1022) - 52;
               m = (if 0 \<le> q then rhe_div n (d * 2 ^ nat q) else rhe_div (n * 2 ^ nat (- q)) d)
           in if m = 0 then Some (0, 0)
              else if m = 2 ^ 53 then (if 971 < q + 1 then None else Some (2 ^ 52, q + 1))
              else if 971 < q then None else Some (m, q))"

definition fl_of_rat :: "int \<Rightarrow> nat \<Rightarrow> pyfloat" where
  "fl_of_rat n d =
     (case nearest_double (nat \<bar>n\<bar>) d of
        None \<Rightarrow> if n < 0 then NInf else PInf
      | Some (m, e) \<Rightarrow> Fin (if n < 0 then - int m else int m) e)"

text \<open>The double nearest to \<open>n * 2 ^ e\<close>.\<close>

definition fl_of_scaled :: "int \<Rightarrow> int \<Rightarrow> pyfloat" where
  "fl_of_scaled n e = (if 0 \<le> e then fl_of_rat (n * 2 ^ nat e) 1 else fl_of_rat n (2 ^ nat (- e)))"

text \<open>\<^verbatim>\<open>float(k)\<close> for an integer \<open>k\<close>.\<close>

definition float_of_int :: "int \<Rightarrow> pyfloat" where
  "float_of_int k = fl_of_rat k 1"

fun fneg :: "pyfloat \<Rightarrow> pyfloat" where
  "fneg (Fin m e) = Fin (- m) e"
| "fneg PInf = NInf"
| "fneg NInf = PInf"
| "fneg NaN = NaN"

text \<open>\<^verbatim>\<open>abs(x)\<close>\<close>

fun fabs :: "pyfloat \<Rightarrow> pyfloat" where
  "fabs (Fin m e) = Fin \<bar>m\<bar> e"
| "fabs PInf = PInf"
| "fabs NInf = PInf"
| "fabs NaN = NaN"

text \<open>\<^verbatim>\<open>x - y\<close>\<close>

fun fsub :: "pyfloat \<Rightarrow> pyfloat \<Rightarrow> pyfloat" where
  "fsub (Fin m1 e1) (Fin m2 e2) =
     fl_of_scaled (m1 * 2 ^ nat (e1 - min e1 e2) - m2 * 2 ^ nat (e2 - min e1 e2)) (min e1 e2)"
| "fsub NaN y = NaN"
| "fsub x NaN = NaN"
| "fsub PInf PInf = NaN"
| "fsub NInf NInf = NaN"
| "fsub PInf y = PInf"
| "fsub NInf y = NInf"
| "fsub x PInf = NInf"
| "fsub x NInf = PInf"




text \<open>\<^verbatim>\<open>x <= y\<close>\<close>

fun fle :: "pyfloat \<Rightarrow> pyfloat \<Rightarrow> bool" where
  "fle (Fin m1 e1) (Fin m2 e2) =
     (m1 * 2 ^ nat (e1 - min e1 e2) \<le> m2 * 2 ^ nat (e2 - min e1 e2))"
| "fle NaN y = False"
| "fle x NaN = False"
| "fle NInf y = True"
| "fle x PInf = True"
| "fle x y = False"

text \<open>
  \<^verbatim>\<open>round(x)\<close>: the nearest integer, a tie to the even one; \<^verbatim>\<open>OverflowError\<close> on an
  infinity and \<^verbatim>\<open>ValueError\<close> on a NaN.
\<close>

fun py_round :: "pyfloat \<Rightarrow> py_error + int" where
  "py_round (Fin m e) =
     Inr (if 0 \<le> e then m * 2 ^ nat e else sgn m * int (rhe_div (nat \<bar>m\<bar>) (2 ^ nat (- e))))"
| "py_round PInf = Inl OverflowError"
| "py_round NInf = Inl OverflowError"
| "py_round NaN = Inl ValueError"


text \<open>
  \<^verbatim>\<open>int(s)\<close> and \<^verbatim>\<open>float(s)\<close> on the strings the program passes: a run of digits, and a
  run of digits with an optional \<^verbatim>\<open>.\<close> and a second run of digits. Python accepts
  further forms (a sign, an exponent, surrounding blanks); the program never passes them,
  and the model answers \<^verbatim>\<open>ValueError\<close> there. Integers are unbounded (the interpreter's
  optional limit on the length of a digit string is not modelled).
\<close>

definition digit_val :: "char \<Rightarrow> nat" where
  "digit_val c = code c - 48"

definition nat_of_digits :: "string \<Rightarrow> nat" where
  "nat_of_digits s = foldl (\<lambda>acc c. 10 * acc + digit_val c) 0 s"

definition is_digits :: "string \<Rightarrow> bool" where
  "is_digits s = (s \<noteq> [] \<and> list_all is_digit s)"

definition py_int :: "string \<Rightarrow> py_error + int" where
  "py_int s = (if is_digits s then Inr (int (nat_of_digits s)) else Inl ValueError)"

definition py_float :: "string \<Rightarrow> py_error + pyfloat" where
  "py_float s =
     (let a = takeWhile (\<lambda>c. c \<noteq> CHR ''.'') s; r = dropWhile (\<lambda>c. c \<noteq> CHR ''.'') s in
      if r = [] then (if is_digits a then Inr (fl_of_rat (int (nat_of_digits a)) 1) else Inl ValueError)
      else if is_digits a \<and> is_digits (tl r)
        then Inr (fl_of_rat (int (nat_of_digits (a @ tl r))) (10 ^ length (tl r)))
        else Inl ValueError)"

text \<open>\<^verbatim>\<open>str(n)\<close> for an integer, as the f-strings of the program render it.\<close>

fun digits_of :: "nat \<Rightarrow> string" where
  "digits_of n =
     (if n < 10 then [char_of (48 + n)] else digits_of (n div 10) @ [char_of (48 + n mod 10)])"

declare digits_of.simps [simp del]

definition py_str_int :: "int \<Rightarrow> string" where
  "py_str_int k = (if k < 0 then CHR ''-'' # digits_of (nat (- k)) else digits_of (nat k))"

text \<open>A list comprehension whose element expression may raise: the first error wins.\<close>

fun traverse :: "('a \<Rightarrow> py_error + 'b) \<Rightarrow> 'a list \<Rightarrow> py_error + 'b list" where
  "traverse f [] = Inr []"
| "traverse f (x # xs) =
     (case f x of
        Inl e \<Rightarrow> Inl e
      | Inr y \<Rightarrow> (case traverse f xs of Inl e \<Rightarrow> Inl e | Inr ys \<Rightarrow> Inr (y # ys)))"

section \<open>The dataset\<close>

text \<open>
  \<^verbatim>\<open>create_syracuse_2024_dataset\<close>: the data frame is a list of rows in the order of
  the source's columns. Of the team statistics, the two entries that the ground truth
  reads are kept.
\<close>

record row =
  Player :: string
  Jersey :: int
  Goals :: int
  Assists :: int
  Points :: int
  Shots :: int
  Games_Played :: int

record team_stats =
  ts_season_record :: string
  ts_total_games :: int

definition col_Player :: "string list" where
  "col_Player =
    [''Meaghan Tyrrell'', ''Olivia Adamson'', ''Emma Ward'', ''Sam Swart'',
     ''Payton Rowley'', ''Maddy Baxter'', ''Savannah Sweitzer'', ''Emma Madnick'',
     ''Jody Cerullo'', ''Grace Britton'', ''Kendall Rose'', ''Kaci Benoit'',
     ''Sloane Clark'', ''Katie Goodale'', ''Mackenzie Rich'', ''Victoria Reid'',
     ''Ryann Banks'', ''Hallie Simpkins'', ''McKenzie Oleen'', ''Ruby Hnatkowiak'',
     ''Sydney Pirreca'', ''Carlie Desimone'', ''Ally Quirk'', ''Tate Paulson'',
     ''Ryan Johnson'', ''Georgia Sexton-Stone'', ''Gwenna Gento'', ''Ezra Lahan'',
     ''Ella Bree'', ''Talia Waders'', ''Jenna Marino'', ''Ana Horvit'',
     ''Delaney Swartout'', ''Daniella Guyette'']"

definition col_Jersey :: "int list" where
  "col_Jersey =
    [22, 22, 23, 2, 19, 22, 21, 22,
     17, 19, 7, 22, 9, 31, 10, 7,
     4, 22, 21, 22, 6, 9, 5, 1,
     6, 7, 7, 7, 6, 5, 3, 7,
     22, 7]"

definition col_Goals :: "int list" where
  "col_Goals =
    [70, 58, 44, 29, 23, 30, 24, 14,
     11, 6, 8, 1, 1, 0, 0, 0,
     0, 0, 0, 0, 0, 0, 0, 0,
     0, 0, 0, 0, 0, 0, 0, 0,
     0, 0]"

definition col_Assists :: "int list" where
  "col_Assists =
    [32, 25, 37, 18, 15, 6, 9, 13,
     3, 4, 1, 0, 0, 1, 1, 0,
     1, 1, 0, 0, 0, 0, 0, 0,
     0, 0, 0, 0, 0, 0, 0, 0,
     0, 0]"

definition col_Points :: "int list" where
  "col_Points =
    [102, 83, 81, 47, 38, 36, 33, 27,
     14, 10, 9, 1, 1, 1, 1, 0,
     1, 1, 0, 0, 0, 0, 0, 0,
     0, 0, 0, 0, 0, 0, 0, 0,
     0, 0]"

definition col_Shots :: "int list" where
  "col_Shots =
    [115, 109, 90, 53, 55, 64, 54, 42,
     29, 17, 11, 3, 1, 2, 1, 2,
     1, 0, 4, 2, 1, 1, 0, 0,
     0, 0, 0, 0, 0, 0, 0, 0,
     0, 0]"

definition col_Games_Played :: "int list" where
  "col_Games_Played =
    [21, 12, 10, 19, 15, 14, 8, 15,
     10, 3, 3, 21, 1, 43, 19, 19,
     0, 26, 3, 1, 10, 0, 0, 1,
     0, 0, 0, 1, 1, 0, 0, 0,
     4, 0]"

definition data_frame ::
  "string list \<Rightarrow> int list \<Rightarrow> int list \<Rightarrow> int list \<Rightarrow> int list \<Rightarrow> int list \<Rightarrow> int list \<Rightarrow> row list" where
  "data_frame ps js gs as pts ss gps =
     map (\<lambda>(p, j, g, a, pt, s, gp).
            \<lparr>Player = p, Jersey = j, Goals = g, Assists = a, Points = pt, Shots = s,
             Games_Played = gp\<rparr>)
         (zip ps (zip js (zip gs (zip as (zip pts (zip ss gps))))))"

definition create_syracuse_2024_dataset :: "row list \<times> team_stats" where
  "create_syracuse_2024_dataset =
     (data_frame col_Player col_Jersey col_Goals col_Assists col_Points col_Shots col_Games_Played,
      \<lparr>ts_season_record = ''16-6'', ts_total_games = 22\<rparr>)"

section \<open>The ground truth\<close>

text \<open>
  \<^verbatim>\<open>_calculate_ground_truth\<close>, with the entries that \<^verbatim>\<open>validate_response\<close> and the rubric
  read. \<^verbatim>\<open>idxmax\<close> is the position of the first maximum and raises \<^verbatim>\<open>ValueError\<close> on an
  empty column. \<^verbatim>\<open>sort_values('Goals', ascending=False)\<close> is modelled as a stable sort;
  on the dataset the three largest goal counts are distinct from each other and from
  the rest.
\<close>

record ground_truth =
  total_games :: int
  season_record :: string
  wins :: int
  losses :: int
  top_scorer :: string
  top_scorer_goals :: int
  top_assist :: string
  top_assist_count :: int
  total_goals :: int
  top3_shooting :: "(string \<times> pyfloat) list"
  count_ge_10_goals :: int





text \<open>\<^verbatim>\<open>SyracuseDataValidator\<close>: the data frame and the ground truth computed from it.\<close>

record validator =
  df :: "row list"
  gt :: ground_truth


section \<open>Extraction of numbers and percentages\<close>

text \<open>\<^verbatim>\<open>_extract_numbers_and_percents\<close>: the numbers first, then the percentages.\<close>

definition extract_numbers_and_percents :: "string \<Rightarrow> py_error + (pyfloat list \<times> pyfloat list)" where
  "extract_numbers_and_percents text =
     (let nums = findall rx_number text;
          pcts = findall rx_percent text
      in case traverse (\<lambda>p. py_float (strip (rstrip_char CHR ''%'' p))) pcts of
           Inl e \<Rightarrow> Inl e
         | Inr pct_vals \<Rightarrow>
             (case traverse py_float nums of
                Inl e \<Rightarrow> Inl e
              | Inr vals \<Rightarrow> Inr (vals, pct_vals)))"

text \<open>\<^verbatim>\<open>_extract_numbers_legacy\<close>\<close>

definition extract_numbers_legacy :: "string \<Rightarrow> py_error + int list" where
  "extract_numbers_legacy text = traverse py_int (findall rx_integer text)"

section \<open>The rubric for strategic answers\<close>

record scores =
  specificity :: int
  actionability :: int
  plausibility :: int

definition action_terms :: "string list" where
  "action_terms =
     [''focus'', ''improve'', ''increase'', ''reduce'', ''practice'', ''drill'', ''scheme'',
      ''set play'', ''assign'', ''rotate'', ''substitute'', ''optimize'', ''work on'',
      ''emphasize'', ''target'', ''adjust'', ''press'', ''zone'', ''man-to-man'', ''transition'']"

text \<open>\<^verbatim>\<open>sum(1 for n in names if n in text_l)\<close>\<close>

definition count_in :: "string list \<Rightarrow> string \<Rightarrow> int" where
  "count_in names text_l = int (length (filter (\<lambda>n. str_in n text_l) names))"

definition score_strategic_response :: "validator \<Rightarrow> string \<Rightarrow> scores" where
  "score_strategic_response self text =
     (let text_l = lower text;
          names = map lower (filter (\<lambda>n. strip n \<noteq> []) (map Player (df self)));
          mentions = count_in names text_l;
          contains_numbers = search rx_digit text_l;
          specificity = 1 + min 4 (mentions div 2) + (if contains_numbers then 1 else 0);
          specificity = min 5 specificity;
          actionability = 1 + count_in action_terms text_l;
          actionability = max 1 (min 5 actionability);
          top_scorer = lower (top_scorer (gt self));
          plausible = (\<not> ((str_in ''top scorer'' text_l \<or> str_in ''leading scorer'' text_l)
                           \<and> \<not> str_in top_scorer text_l));
          plausibility = (if plausible then 5 else 2)
      in \<lparr>specificity = specificity, actionability = actionability,
          plausibility = plausibility\<rparr>)"

section \<open>Validation of a response\<close>

text \<open>
  The result dictionary of \<^verbatim>\<open>validate_response\<close>. The expected answer is a string, an
  integer or the top-3 list. A note is kept as the values that its f-string
  interpolates (the rendering of lists and floats as text is not modelled). The
  timestamp \<^verbatim>\<open>datetime.now().isoformat()\<close> is an argument of the model.
\<close>

datatype expected = ExpStr string | ExpInt int | ExpTop3 "(string \<times> pyfloat) list"

datatype remark =
    Note_Expected string
  | Note_Expected_found_numbers int "int list"
  | Note_Correct_goal_count
  | Note_Expected_found int "int list"
  | Note_Matched int pyfloat
  | Note_Expected_found_vals int "pyfloat list"
  | Note_Scores scores

record result =
  question_type :: string
  timestamp :: string
  accuracy :: bool
  error_type :: "string option"
  result_notes :: "remark list"
  expected_answer :: "expected option"
  llm_answer :: string

text \<open>The tolerance \<^verbatim>\<open>0.5\<close>.\<close>

definition tol :: pyfloat where
  "tol = Fin (2 ^ 52) (- 53)"

text \<open>The loop that counts the hits of the shooting analysis.\<close>

fun count_hits :: "string \<Rightarrow> pyfloat list \<Rightarrow> (string \<times> pyfloat) list \<Rightarrow> int \<Rightarrow> int" where
  "count_hits response_lower candidates [] hits = hits"
| "count_hits response_lower candidates ((name, pct) # expected) hits =
     count_hits response_lower candidates expected
       (if str_in name response_lower
        then (if list_ex (\<lambda>x. fle (fabs (fsub x pct)) tol) candidates then hits + 1 else hits)
        else hits)"

text \<open>
  \<^verbatim>\<open>any(int(round(v)) == int(count_ge_10) for v in vals)\<close>: the values are tried from
  the left, and \<^verbatim>\<open>round\<close> raises on a value that is not finite.
\<close>

fun any_rounds_to :: "int \<Rightarrow> pyfloat list \<Rightarrow> py_error + bool" where
  "any_rounds_to k [] = Inr False"
| "any_rounds_to k (v # vs) =
     (case py_round v of
        Inl e \<Rightarrow> Inl e
      | Inr n \<Rightarrow> if n = k then Inr True else any_rounds_to k vs)"

definition validate_response :: "validator \<Rightarrow> string \<Rightarrow> string \<Rightarrow> string \<Rightarrow> py_error + result" where
  "validate_response self now llm_response qt =
     (let result = \<lparr>question_type = qt, timestamp = now, accuracy = False,
                     error_type = None, result_notes = [], expected_answer = None,
                     llm_answer = (if 100 < length llm_response
                                   then take 100 llm_response @ ''...'' else llm_response)\<rparr>
      in case extract_numbers_legacy llm_response of
           Inl e \<Rightarrow> Inl e
         | Inr legacy_ints \<Rightarrow>
      let response_lower = lower llm_response in
      if qt = ''season_record'' then
        (let expected = season_record (gt self);
             result = result\<lparr>expected_answer := Some (ExpStr expected)\<rparr>
         in if str_in expected llm_response
               \<or> str_in (py_str_int (wins (gt self)) @ ''-'' @ py_str_int (losses (gt self)))
                    llm_response
            then Inr (result\<lparr>accuracy := True\<rparr>)
            else Inr (result\<lparr>error_type := Some ''incorrect_record'',
                              result_notes := result_notes result @ [Note_Expected expected]\<rparr>))
      else if qt = ''total_games'' then
        (let expected = total_games (gt self);
             result = result\<lparr>expected_answer := Some (ExpInt expected)\<rparr>
         in if legacy_ints \<noteq> [] \<and> expected \<in> set legacy_ints
            then Inr (result\<lparr>accuracy := True\<rparr>)
            else Inr (result\<lparr>error_type := Some ''incorrect_calculation'',
                              result_notes := result_notes result
                                @ [Note_Expected_found_numbers expected legacy_ints]\<rparr>))
      else if qt = ''top_scorer'' then
        (let expected_player = top_scorer (gt self);
             expected_goals = top_scorer_goals (gt self);
             result = result\<lparr>expected_answer := Some (ExpStr
                        (expected_player @ '' ('' @ py_str_int expected_goals @ '' goals)''))\<rparr>
         in if str_in (lower expected_player) response_lower
            then (let result = result\<lparr>accuracy := True\<rparr>
                  in if expected_goals \<in> set legacy_ints
                     then Inr (result\<lparr>result_notes := result_notes result @ [Note_Correct_goal_count]\<rparr>)
                     else Inr result)
            else Inr (result\<lparr>error_type := Some ''incorrect_player'',
                              result_notes := result_notes result @ [Note_Expected expected_player]\<rparr>))
      else if qt = ''team_goals'' then
        (let expected = total_goals (gt self);
             result = result\<lparr>expected_answer := Some (ExpInt expected)\<rparr>
         in if legacy_ints \<noteq> [] \<and> expected \<in> set legacy_ints
            then Inr (result\<lparr>accuracy := True\<rparr>)
            else Inr (result\<lparr>error_type := Some ''incorrect_calculation'',
                              result_notes := result_notes result @ [Note_Expected_found expected legacy_ints]\<rparr>))
      else if qt = ''top_assists'' then
        (let expected_player = top_assist (gt self);
             expected_count = top_assist_count (gt self);
             result = result\<lparr>expected_answer := Some (ExpStr
                        (expected_player @ '' ('' @ py_str_int expected_count @ '' assists)''))\<rparr>
         in if str_in (lower expected_player) response_lower
            then Inr (result\<lparr>accuracy := True\<rparr>)
            else Inr (result\<lparr>error_type := Some ''incorrect_player'',
                              result_notes := result_notes result @ [Note_Expected expected_player]\<rparr>))
      else if qt = ''shooting_analysis'' then
        (let expected = map (\<lambda>(player, pct). (lower player, pct)) (top3_shooting (gt self));
             result = result\<lparr>expected_answer := Some (ExpTop3 (top3_shooting (gt self)))\<rparr>
         in case extract_numbers_and_percents llm_response of
              Inl e \<Rightarrow> Inl e
            | Inr (vals, pcts) \<Rightarrow>
                let candidates = pcts @ vals;
                    hits = count_hits response_lower candidates expected 0;
                    result = result\<lparr>accuracy := (2 \<le> hits)\<rparr>
                in if \<not> accuracy result
                   then Inr (result\<lparr>error_type := Some ''incorrect_shooting_analysis'',
                                     result_notes := result_notes result @ [Note_Matched hits tol]\<rparr>)
                   else Inr result)
      else if qt = ''offensive_balance'' then
        (let count_ge_10 = count_ge_10_goals (gt self);
             result = result\<lparr>expected_answer := Some (ExpInt count_ge_10)\<rparr>
         in case extract_numbers_and_percents llm_response of
              Inl e \<Rightarrow> Inl e
            | Inr (vals, _) \<Rightarrow>
                (case any_rounds_to count_ge_10 vals of
                   Inl e \<Rightarrow> Inl e
                 | Inr ok \<Rightarrow>
                     let result = result\<lparr>accuracy := ok\<rparr>
                     in if \<not> ok
                        then Inr (result\<lparr>error_type := Some ''incorrect_offensive_depth'',
                                          result_notes := result_notes result
                                            @ [Note_Expected_found_vals count_ge_10 vals]\<rparr>)
                        else Inr result))
      else if qt = ''strategic_analysis'' then
        (let scores = score_strategic_response self llm_response;
             result = result\<lparr>expected_answer := Some (ExpStr
                        ''Rubric-based (Specificity, Actionability, Plausibility >= 3)'')\<rparr>;
             result = result\<lparr>result_notes := result_notes result @ [Note_Scores scores]\<rparr>;
             result = result\<lparr>accuracy := (3 \<le> specificity scores \<and> 3 \<le> actionability scores
                                            \<and> 3 \<le> plausibility scores)\<rparr>
         in if \<not> accuracy result
            then Inr (result\<lparr>error_type := Some ''insufficient_rubric_scores''\<rparr>)
            else Inr result)
      else Inr result)"

section \<open>The results analyzer\<close>

text \<open>
  \<^verbatim>\<open>ResultsAnalyzer\<close>: the list of test records, appended to by \<^verbatim>\<open>add_result\<close>.
  \<^verbatim>\<open>generate_summary_report\<close> builds a Markdown text; the model keeps the values that
  the text is built from: the number of tests, for every prompt type in the order of the
  dictionary its success rate and the two counts, the questions of the first three
  accurate records, and the table of error kinds of the inaccurate ones. The dictionaries
  are association lists in insertion order.
\<close>

record test_record =
  tr_timestamp :: string
  prompt_type :: string
  question :: string
  llm_response :: string
  validation :: result

definition add_result ::
  "test_record list \<Rightarrow> string \<Rightarrow> string \<Rightarrow> string \<Rightarrow> string \<Rightarrow> result \<Rightarrow> test_record list" where
  "add_result results now ptype q resp v =
     results @ [\<lparr>tr_timestamp = now, prompt_type = ptype, question = q, llm_response = resp,
                 validation = v\<rparr>]"













text \<open>The validator that the constructor builds from the dataset.\<close>

definition syracuse :: validator where
  "syracuse =
     \<lparr>df = fst create_syracuse_2024_dataset,
      gt = \<lparr>total_games = 22, season_record = ''16-6'', wins = 16, losses = 6,
             top_scorer = ''Meaghan Tyrrell'', top_scorer_goals = 70,
             top_assist = ''Emma Ward'', top_assist_count = 37, total_goals = 319,
             top3_shooting =
               [(''Meaghan Tyrrell'', Fin 8570913040839475 (- 47)),
                (''Olivia Adamson'', Fin 7487234380503450 (- 47)),
                (''Emma Ward'', Fin 6882063180575539 (- 47))],
             count_ge_10_goals = 9\<rparr>\<rparr>"

section \<open>Auxiliary notions for the proofs\<close>

text \<open>Where \<^verbatim>\<open>\s*%\<close> ends when it is matched at the start of \<open>r\<close>.\<close>

definition pct_end :: "string \<Rightarrow> pos list" where
  "pct_end r =
     (case dropWhile is_space r of
        [] \<Rightarrow> []
      | c # t \<Rightarrow> if c = CHR ''%'' then [(Some c, t)] else [])"

text \<open>A decimal token: digits, or digits, a point and digits.\<close>

definition is_decimal :: "string \<Rightarrow> bool" where
  "is_decimal m =
     (is_digits m \<or>
      (is_digits (takeWhile is_digit m) \<and>
       (case dropWhile is_digit m of [] \<Rightarrow> False | c # b \<Rightarrow> c = CHR ''.'' \<and> is_digits b)))"

text \<open>One step of the scan with the integer pattern.\<close>

definition integer_here :: "char option \<Rightarrow> string \<Rightarrow> bool" where
  "integer_here pv s =
     (at_boundary pv s \<and> s \<noteq> [] \<and> is_digit (hd s) \<and> \<not> word_after (dropWhile is_digit s))"

text \<open>The text of a percentage match: a decimal, blanks, the sign.\<close>

definition is_percent_token :: "string \<Rightarrow> bool" where
  "is_percent_token m = (\<exists>d ws. m = d @ ws @ ''%'' \<and> is_decimal d \<and> list_all is_space ws)"

text \<open>A returned value with the timestamp field blanked.\<close>

definition erase_timestamp :: "py_error + result \<Rightarrow> py_error + result" where
  "erase_timestamp x = map_sum id (\<lambda>res. res\<lparr>timestamp := []\<rparr>) x"

text \<open>The result dictionary as \<open>validate_response\<close> creates it, before the policy runs.\<close>

definition initial_result :: "string \<Rightarrow> string \<Rightarrow> string \<Rightarrow> result" where
  "initial_result qt now response =
     \<lparr>question_type = qt, timestamp = now, accuracy = False, error_type = None,
      result_notes = [], expected_answer = None,
      llm_answer = (if 100 < length response then take 100 response @ ''...'' else response)\<rparr>"

text \<open>The integers that the legacy extraction returns.\<close>

definition legacy_ints :: "string \<Rightarrow> int list" where
  "legacy_ints response = map (\<lambda>m. int (nat_of_digits m)) (findall rx_integer response)"



text \<open>
  Following the words of the specification of the rubric: a name is found as a whole
  token when it occurs with no word character directly before it and none directly after
  it; the specificity score counts the distinct names found in this way.
\<close>

definition token_here :: "string \<Rightarrow> char option \<Rightarrow> string \<Rightarrow> bool" where
  "token_here n pv s =
     (starts_with n s \<and> \<not> word_before pv \<and> \<not> word_after (drop (length n) s))"

fun whole_token_from :: "string \<Rightarrow> char option \<Rightarrow> string \<Rightarrow> bool" where
  "whole_token_from n pv [] = token_here n pv []"
| "whole_token_from n pv (c # cs) = (token_here n pv (c # cs) \<or> whole_token_from n (Some c) cs)"

definition whole_token_in :: "string \<Rightarrow> string \<Rightarrow> bool" where
  "whole_token_in n text = whole_token_from n None text"

definition spec_specificity :: "string list \<Rightarrow> string \<Rightarrow> int" where
  "spec_specificity names text =
     min 5 (1 + min 4 (int (length (remdups
                        (filter (\<lambda>n. whole_token_in (lower n) (lower text)) names))) div 2)
              + (if list_ex is_digit text then 1 else 0))"

section \<open>Characters and matches\<close>

lemma digit_is_word: "is_digit c \<Longrightarrow> is_word c"
  by (simp add: is_digit_def is_word_def Let_def)

lemma digit_not_space: "is_digit c \<Longrightarrow> \<not> is_space c"
  by (auto simp add: is_digit_def is_space_def Let_def)

lemma digit_not_dot: "is_digit c \<Longrightarrow> c \<noteq> CHR ''.''"
  by (auto simp add: is_digit_def code_def)

lemma digit_not_percent: "is_digit c \<Longrightarrow> c \<noteq> CHR ''%''"
  by (auto simp add: is_digit_def code_def)

lemma space_not_percent: "is_space c \<Longrightarrow> c \<noteq> CHR ''%''"
  by (auto simp add: is_space_def code_def)

lemma dot_facts: "\<not> is_word CHR ''.''" "\<not> is_digit CHR ''.''" "\<not> is_space CHR ''.''"
  by (simp_all add: is_digit_def is_word_def is_space_def code_def)


lemma in_class_Digit: "in_class Digit = is_digit"
  by (rule ext) simp

lemma in_class_Space: "in_class Space = is_space"
  by (rule ext) simp

lemma greedy_concat:
  assumes "\<And>p x xs. in_class k x \<Longrightarrow> p = pv \<or> (\<exists>d. p = Some d \<and> in_class k d) \<Longrightarrow> F (p, x # xs) = []"
  shows "concat (map F (greedy k pv s)) =
         F (lastopt pv (takeWhile (in_class k) s), dropWhile (in_class k) s)"
  using assms
proof (induction s arbitrary: pv)
  case Nil
  then show ?case by (simp add: lastopt_def)
next
  case (Cons x xs)
  show ?case
  proof (cases "in_class k x")
    case True
    have "concat (map F (greedy k (Some x) xs)) =
          F (lastopt (Some x) (takeWhile (in_class k) xs), dropWhile (in_class k) xs)"
      by (rule Cons.IH) (use True Cons.prems in auto)
    moreover have "F (pv, x # xs) = []"
      using Cons.prems True by blast
    ultimately show ?thesis using True by (simp add: lastopt_def)
  next
    case False
    then show ?thesis by (simp add: lastopt_def)
  qed
qed

lemma seq_assoc: "rx_match (Seq (Seq a b) c) p = rx_match (Seq a (Seq b c)) p"
proof -
  have "concat (map f (concat (map g xs))) = concat (map (\<lambda>x. concat (map f (g x))) xs)"
    for f :: "pos \<Rightarrow> pos list" and g :: "pos \<Rightarrow> pos list" and xs
    by (induction xs) auto
  moreover have "rx_match (Seq b c) = (\<lambda>x. concat (map (rx_match c) (rx_match b x)))"
    by (rule ext) simp
  ultimately show ?thesis by simp
qed

lemma plus_digit_seq:
  assumes "\<And>d x xs. is_digit d \<Longrightarrow> is_digit x \<Longrightarrow> rx_match b (Some d, x # xs) = []"
  shows "rx_match (Seq (Plus Digit) b) (pv, s) =
         (if s \<noteq> [] \<and> is_digit (hd s)
          then rx_match b (Some (last (takeWhile is_digit s)), dropWhile is_digit s)
          else [])"
proof (cases s)
  case Nil
  then show ?thesis by simp
next
  case (Cons c cs)
  show ?thesis
  proof (cases "is_digit c")
    case True
    have "concat (map (rx_match b) (greedy Digit (Some c) cs)) =
          rx_match b (lastopt (Some c) (takeWhile (in_class Digit) cs), dropWhile (in_class Digit) cs)"
      by (rule greedy_concat) (use True assms in auto)
    then show ?thesis using True Cons by (simp add: lastopt_def in_class_Digit)
  next
    case False
    then show ?thesis using Cons by simp
  qed
qed

lemma boundary_seq:
  "rx_match (Seq Boundary b) (pv, s) = (if at_boundary pv s then rx_match b (pv, s) else [])"
  by simp

lemma percent_tail:
  "rx_match (Seq (Star Space) (One (Lit CHR ''%''))) (pv, s) =
     (case dropWhile is_space s of
        [] \<Rightarrow> []
      | c # t \<Rightarrow> if c = CHR ''%'' then [(Some c, t)] else [])"
proof -
  have "rx_match (Seq (Star Space) (One (Lit CHR ''%''))) (pv, s) =
        concat (map (rx_match (One (Lit CHR ''%''))) (greedy Space pv s))"
    by simp
  also have "\<dots> = rx_match (One (Lit CHR ''%''))
                     (lastopt pv (takeWhile (in_class Space) s), dropWhile (in_class Space) s)"
    by (rule greedy_concat) (auto simp: space_not_percent)
  also have "\<dots> = (case dropWhile is_space s of
        [] \<Rightarrow> []
      | c # t \<Rightarrow> if c = CHR ''%'' then [(Some c, t)] else [])"
    unfolding in_class_Space by (simp cong: list.case_cong)
  finally show ?thesis .
qed

lemma last_digits_word:
  assumes "s \<noteq> []" "is_digit (hd s)"
  shows "is_digit (last (takeWhile is_digit s))"
proof -
  have "takeWhile is_digit s \<noteq> []" using assms by (cases s) auto
  then have "last (takeWhile is_digit s) \<in> set (takeWhile is_digit s)" by simp
  then show ?thesis by (auto dest: set_takeWhileD)
qed

lemma boundary_between_digits:
  "is_digit d \<Longrightarrow> is_digit x \<Longrightarrow> rx_match Boundary (Some d, x # xs) = []"
  by (simp add: at_boundary_def word_before_def word_after_def digit_is_word)

lemma boundary_after_digit:
  "is_digit d \<Longrightarrow> rx_match Boundary (Some d, r) = (if word_after r then [] else [(Some d, r)])"
  by (simp add: at_boundary_def word_before_def digit_is_word)

lemma match_integer:
  "rx_match rx_integer (pv, s) =
     (if at_boundary pv s \<and> s \<noteq> [] \<and> is_digit (hd s) \<and> \<not> word_after (dropWhile is_digit s)
      then [(Some (last (takeWhile is_digit s)), dropWhile is_digit s)] else [])"
  unfolding rx_integer_def
  by (simp del: rx_match.simps
        add: boundary_seq plus_digit_seq [OF boundary_between_digits] boundary_after_digit
             last_digits_word)


lemma opt_seq: "rx_match (Seq (Opt a) b) p = rx_match (Seq a b) p @ rx_match b p"
  by simp

lemma one_seq:
  "rx_match (Seq (One k) b) (pv, s) =
     (case s of [] \<Rightarrow> [] | c # cs \<Rightarrow> if in_class k c then rx_match b (Some c, cs) else [])"
  by (cases s) simp_all

lemma digits_boundary:
  "rx_match (Seq (Plus Digit) Boundary) (pv, s) =
     (if s \<noteq> [] \<and> is_digit (hd s) \<and> \<not> word_after (dropWhile is_digit s)
      then [(Some (last (takeWhile is_digit s)), dropWhile is_digit s)] else [])"
  by (simp del: rx_match.simps
        add: plus_digit_seq [OF boundary_between_digits] boundary_after_digit last_digits_word)

lemma frac_seq:
  "rx_match (Seq rx_fraction b) (pv, s) =
     (case s of [] \<Rightarrow> []
      | c # r \<Rightarrow> if c = CHR ''.'' then rx_match (Seq (Plus Digit) b) (Some c, r) else [])"
  unfolding rx_fraction_def
  by (simp del: rx_match.simps add: seq_assoc one_seq cong: list.case_cong)

lemma number_tail_between_digits:
  assumes "is_digit d" "is_digit x"
  shows "rx_match (Seq (Opt rx_fraction) Boundary) (Some d, x # xs) = []"
  using assms
  by (simp del: rx_match.simps add: opt_seq frac_seq boundary_between_digits digit_not_dot)

lemma number_tail:
  assumes "is_digit d"
  shows "rx_match (Seq (Opt rx_fraction) Boundary) (Some d, t) =
     (case t of
        [] \<Rightarrow> []
      | c # r \<Rightarrow>
          if c = CHR ''.'' \<and> r \<noteq> [] \<and> is_digit (hd r) \<and> \<not> word_after (dropWhile is_digit r)
          then [(Some (last (takeWhile is_digit r)), dropWhile is_digit r)] else [])
     @ (if word_after t then [] else [(Some d, t)])"
  using assms
  by (cases t)
     (simp_all del: rx_match.simps
        add: opt_seq frac_seq digits_boundary boundary_after_digit)

lemma match_number:
  "rx_match rx_number (pv, s) =
     (if at_boundary pv s \<and> s \<noteq> [] \<and> is_digit (hd s)
      then (case dropWhile is_digit s of
              [] \<Rightarrow> []
            | c # r \<Rightarrow>
                if c = CHR ''.'' \<and> r \<noteq> [] \<and> is_digit (hd r) \<and> \<not> word_after (dropWhile is_digit r)
                then [(Some (last (takeWhile is_digit r)), dropWhile is_digit r)] else [])
           @ (if word_after (dropWhile is_digit s) then []
              else [(Some (last (takeWhile is_digit s)), dropWhile is_digit s)])
      else [])"
proof -
  have "rx_match rx_number (pv, s) =
        (if at_boundary pv s then rx_match (Seq (Plus Digit) (Seq (Opt rx_fraction) Boundary)) (pv, s) else [])"
    unfolding rx_number_def rx_decimal_def
    by (simp del: rx_match.simps add: boundary_seq seq_assoc)
  also have "\<dots> = (if at_boundary pv s \<and> s \<noteq> [] \<and> is_digit (hd s)
      then rx_match (Seq (Opt rx_fraction) Boundary)
             (Some (last (takeWhile is_digit s)), dropWhile is_digit s)
      else [])"
    by (simp del: rx_match.simps add: plus_digit_seq [OF number_tail_between_digits])
  finally show ?thesis
    by (simp del: rx_match.simps add: number_tail last_digits_word cong: if_cong)
qed

lemma pct_tail: "rx_match rx_percent_sign (pv, s) = pct_end s"
  unfolding rx_percent_sign_def pct_end_def by (rule percent_tail)

lemma pct_end_digit: "is_digit x \<Longrightarrow> pct_end (x # xs) = []"
  by (simp add: pct_end_def digit_not_space digit_not_percent)

lemma pct_end_dot: "pct_end (CHR ''.'' # xs) = []"
  by (simp add: pct_end_def dot_facts)

lemma percent_tail_between_digits:
  assumes "is_digit d" "is_digit x"
  shows "rx_match (Seq (Opt rx_fraction) rx_percent_sign) (Some d, x # xs) = []"
  using assms
  by (simp del: rx_match.simps add: opt_seq frac_seq pct_tail pct_end_digit digit_not_dot)

lemma pct_tail_between_digits:
  "is_digit d \<Longrightarrow> is_digit x \<Longrightarrow> rx_match rx_percent_sign (Some d, x # xs) = []"
  by (simp add: pct_tail pct_end_digit)

lemma percent_tail_after_digits:
  "rx_match (Seq (Opt rx_fraction) rx_percent_sign) (pv, t) =
     (case t of
        [] \<Rightarrow> []
      | c # r \<Rightarrow>
          if c = CHR ''.'' \<and> r \<noteq> [] \<and> is_digit (hd r)
          then pct_end (dropWhile is_digit r) else [])
     @ pct_end t"
  by (cases t)
     (simp_all del: rx_match.simps
        add: opt_seq frac_seq pct_tail plus_digit_seq [OF pct_tail_between_digits])

lemma match_percent:
  "rx_match rx_percent (pv, s) =
     (if at_boundary pv s \<and> s \<noteq> [] \<and> is_digit (hd s)
      then (case dropWhile is_digit s of
              [] \<Rightarrow> []
            | c # r \<Rightarrow>
                if c = CHR ''.'' \<and> r \<noteq> [] \<and> is_digit (hd r)
                then pct_end (dropWhile is_digit r) else [])
           @ pct_end (dropWhile is_digit s)
      else [])"
proof -
  have "rx_match rx_percent (pv, s) =
        (if at_boundary pv s then rx_match (Seq (Plus Digit) (Seq (Opt rx_fraction) rx_percent_sign)) (pv, s) else [])"
    unfolding rx_percent_def rx_decimal_def
    by (simp del: rx_match.simps add: boundary_seq seq_assoc)
  also have "\<dots> = (if at_boundary pv s \<and> s \<noteq> [] \<and> is_digit (hd s)
      then rx_match (Seq (Opt rx_fraction) rx_percent_sign)
             (Some (last (takeWhile is_digit s)), dropWhile is_digit s)
      else [])"
    by (simp del: rx_match.simps add: plus_digit_seq [OF percent_tail_between_digits])
  finally show ?thesis
    by (simp del: rx_match.simps add: percent_tail_after_digits cong: if_cong)
qed

section \<open>The scan and the conversions\<close>

lemma findall_nomatch:
  "rx_match r (pv, s) = [] \<Longrightarrow>
   findall_from r pv s = (case s of [] \<Rightarrow> [] | c # cs \<Rightarrow> findall_from r (Some c) cs)"
  by (subst findall_from.simps) simp

lemma findall_match:
  "rx_match r (pv, s) = (pv', s') # rest \<Longrightarrow> length s' < length s \<Longrightarrow>
   findall_from r pv s = take (length s - length s') s # findall_from r pv' s'"
  by (subst findall_from.simps) simp

lemma take_dropWhile: "take (length s - length (dropWhile P s)) s = takeWhile P s"
proof -
  have "length s = length (takeWhile P s) + length (dropWhile P s)"
    by (metis length_append takeWhile_dropWhile_id)
  then have "length s - length (dropWhile P s) = length (takeWhile P s)" by simp
  then show ?thesis by (simp add: takeWhile_eq_take [symmetric])
qed

lemma length_dropWhile_less: "s \<noteq> [] \<Longrightarrow> P (hd s) \<Longrightarrow> length (dropWhile P s) < length s"
  by (cases s) (auto simp: le_imp_less_Suc length_dropWhile_le)

lemma findall_integer_step:
  "findall_from rx_integer pv s =
     (if integer_here pv s
      then takeWhile is_digit s
           # findall_from rx_integer (Some (last (takeWhile is_digit s))) (dropWhile is_digit s)
      else (case s of [] \<Rightarrow> [] | c # cs \<Rightarrow> findall_from rx_integer (Some c) cs))"
proof (cases "integer_here pv s")
  case True
  then have m: "rx_match rx_integer (pv, s) =
      [(Some (last (takeWhile is_digit s)), dropWhile is_digit s)]"
    by (simp add: match_integer integer_here_def)
  have "length (dropWhile is_digit s) < length s"
    using True by (simp add: integer_here_def length_dropWhile_less)
  from findall_match [OF m this] True show ?thesis by (simp add: take_dropWhile)
next
  case False
  then have "rx_match rx_integer (pv, s) = []"
    by (simp add: match_integer integer_here_def)
  from findall_nomatch [OF this] False show ?thesis by simp
qed

lemma findall_integer_Nil [simp]: "findall_from rx_integer pv [] = []"
  by (subst findall_integer_step) (simp add: integer_here_def)




lemma findall_all:
  assumes step: "\<And>pv s pv' s' rest. rx_match r (pv, s) = (pv', s') # rest \<Longrightarrow>
                   length s' < length s \<and> P (take (length s - length s') s)"
  shows "\<forall>m\<in>set (findall_from r pv s). P m"
proof (induction s arbitrary: pv rule: length_induct)
  case (1 s)
  show ?case
  proof (cases "rx_match r (pv, s)")
    case Nil
    show ?thesis
    proof (cases s)
      case Nil
      with \<open>rx_match r (pv, s) = []\<close> show ?thesis by (simp add: findall_nomatch)
    next
      case (Cons c cs)
      then have "length cs < length s" by simp
      with 1 have "\<forall>m\<in>set (findall_from r (Some c) cs). P m" by blast
      with Cons \<open>rx_match r (pv, s) = []\<close> show ?thesis by (simp add: findall_nomatch)
    qed
  next
    case (Cons p rest)
    obtain pv' s' where p: "p = (pv', s')" by (cases p)
    from step [of pv s pv' s' rest] Cons p
    have l: "length s' < length s" and P: "P (take (length s - length s') s)" by simp_all
    have "\<forall>m\<in>set (findall_from r pv' s'). P m" using 1 l by blast
    with findall_match [of r pv s pv' s' rest] Cons p l P show ?thesis by simp
  qed
qed

lemma take_prefix: "s = m @ s' \<Longrightarrow> take (length s - length s') s = m"
  by simp

lemma digits_takeWhile: "s \<noteq> [] \<Longrightarrow> is_digit (hd s) \<Longrightarrow> is_digits (takeWhile is_digit s)"
  by (cases s) (auto simp: is_digits_def list_all_iff dest: set_takeWhileD)

lemma is_digits_props:
  assumes "is_digits a"
  shows "a \<noteq> []" "is_digit (hd a)" "is_digit (last a)" "\<forall>c\<in>set a. is_digit c"
        "takeWhile is_digit (a @ CHR ''.'' # b) = a" "dropWhile is_digit (a @ CHR ''.'' # b) = CHR ''.'' # b"
        "takeWhile is_digit a = a" "dropWhile is_digit a = []"
  using assms
  by (auto simp: is_digits_def list_all_iff dot_facts takeWhile_append2 dropWhile_append2)

lemma is_decimal_iff:
  "is_decimal m \<longleftrightarrow>
   is_digits m \<or> (\<exists>a b. m = a @ CHR ''.'' # b \<and> is_digits a \<and> is_digits b)"
proof
  assume "is_decimal m"
  then show "is_digits m \<or> (\<exists>a b. m = a @ CHR ''.'' # b \<and> is_digits a \<and> is_digits b)"
    unfolding is_decimal_def
    by (auto split: list.splits) (metis takeWhile_dropWhile_id)
next
  assume "is_digits m \<or> (\<exists>a b. m = a @ CHR ''.'' # b \<and> is_digits a \<and> is_digits b)"
  then show "is_decimal m"
    unfolding is_decimal_def by (auto simp: is_digits_props dot_facts)
qed

lemma match_integer_sound:
  assumes "rx_match rx_integer (pv, s) = (pv', s') # rest"
  shows "length s' < length s \<and> is_digits (take (length s - length s') s)"
proof -
  from assms have c: "s \<noteq> []" "is_digit (hd s)" and s': "s' = dropWhile is_digit s"
    by (auto simp: match_integer split: if_splits)
  show ?thesis
    unfolding s' using c by (simp add: take_dropWhile digits_takeWhile length_dropWhile_less)
qed

lemma match_number_sound:
  assumes "rx_match rx_number (pv, s) = (pv', s') # rest"
  shows "length s' < length s \<and> is_decimal (take (length s - length s') s)"
proof -
  let ?a = "takeWhile is_digit s"
  from assms have c: "s \<noteq> []" "is_digit (hd s)"
    by (auto simp: match_number split: if_splits)
  have a: "is_digits ?a" using c by (rule digits_takeWhile)
  from assms c consider
      (frac) r where "dropWhile is_digit s = CHR ''.'' # r" "r \<noteq> []" "is_digit (hd r)"
                     "s' = dropWhile is_digit r"
    | (int) "s' = dropWhile is_digit s"
    by (auto simp: match_number split: if_splits list.splits)
  then show ?thesis
  proof cases
    case frac
    let ?b = "takeWhile is_digit r"
    have b: "is_digits ?b" using frac by (simp add: digits_takeWhile)
    have "s = ?a @ CHR ''.'' # r" using frac(1) by (metis takeWhile_dropWhile_id)
    then have s: "s = (?a @ CHR ''.'' # ?b) @ s'" using frac(4) by simp
    have "take (length s - length s') s = ?a @ CHR ''.'' # ?b"
      by (rule take_prefix) (rule s)
    moreover have "length s' < length s" by (subst s) simp
    ultimately show ?thesis using a b by (auto simp: is_decimal_iff)
  next
    case int
    then show ?thesis
      using c a by (simp add: take_dropWhile length_dropWhile_less is_decimal_iff)
  qed
qed

lemma pct_end_sound:
  assumes "pct_end t = (pv', t') # rest"
  shows "t = takeWhile is_space t @ CHR ''%'' # t'"
proof -
  from assms have "dropWhile is_space t = CHR ''%'' # t'"
    by (auto simp: pct_end_def split: list.splits if_splits)
  then show ?thesis by (metis takeWhile_dropWhile_id)
qed

lemma match_percent_sound:
  assumes "rx_match rx_percent (pv, s) = (pv', s') # rest"
  shows "length s' < length s \<and> is_percent_token (take (length s - length s') s)"
proof -
  let ?a = "takeWhile is_digit s"
  from assms have c: "s \<noteq> []" "is_digit (hd s)"
    by (auto simp: match_percent split: if_splits)
  have a: "is_digits ?a" using c by (rule digits_takeWhile)
  have sa: "s = ?a @ dropWhile is_digit s" by simp
  have m: "(case dropWhile is_digit s of
              [] \<Rightarrow> []
            | c # r \<Rightarrow>
                if c = CHR ''.'' \<and> r \<noteq> [] \<and> is_digit (hd r)
                then pct_end (dropWhile is_digit r) else [])
           @ pct_end (dropWhile is_digit s) = (pv', s') # rest"
    using assms by (simp add: match_percent split: if_splits)
  have "(\<exists>r x. dropWhile is_digit s = CHR ''.'' # r \<and> r \<noteq> [] \<and> is_digit (hd r) \<and>
                     pct_end (dropWhile is_digit r) = (pv', s') # x)
      \<or> (\<exists>x. pct_end (dropWhile is_digit s) = (pv', s') # x)"
  proof (cases "dropWhile is_digit s")
    case Nil
    with m show ?thesis by (simp add: pct_end_def)
  next
    case (Cons c r)
    show ?thesis
    proof (cases "c = CHR ''.'' \<and> r \<noteq> [] \<and> is_digit (hd r)")
      case True
      with m Cons show ?thesis by (simp add: pct_end_dot)
    next
      case False
      with m Cons show ?thesis by auto
    qed
  qed
  then consider
      (frac) r x where "dropWhile is_digit s = CHR ''.'' # r" "r \<noteq> []" "is_digit (hd r)"
                     "pct_end (dropWhile is_digit r) = (pv', s') # x"
    | (int) x where "pct_end (dropWhile is_digit s) = (pv', s') # x"
    by blast
  then show ?thesis
  proof cases
    case frac
    let ?b = "takeWhile is_digit r"
    let ?ws = "takeWhile is_space (dropWhile is_digit r)"
    have b: "is_digits ?b" using frac by (simp add: digits_takeWhile)
    have "dropWhile is_digit r = ?ws @ CHR ''%'' # s'"
      using frac(4) by (rule pct_end_sound)
    then have "r = ?b @ ?ws @ CHR ''%'' # s'" by (metis takeWhile_dropWhile_id)
    moreover have "s = ?a @ CHR ''.'' # r" using frac(1) by (metis takeWhile_dropWhile_id)
    ultimately have s: "s = ((?a @ CHR ''.'' # ?b) @ ?ws @ ''%'') @ s'" by simp
    have "take (length s - length s') s = (?a @ CHR ''.'' # ?b) @ ?ws @ ''%''"
      by (rule take_prefix) (rule s)
    moreover have "length s' < length s" by (subst s) simp
    moreover have "is_decimal (?a @ CHR ''.'' # ?b)" using a b by (auto simp: is_decimal_iff)
    moreover have "list_all is_space ?ws" by (auto simp: list_all_iff dest: set_takeWhileD)
    ultimately show ?thesis unfolding is_percent_token_def by blast
  next
    case int
    let ?ws = "takeWhile is_space (dropWhile is_digit s)"
    have "dropWhile is_digit s = ?ws @ CHR ''%'' # s'"
      using int by (rule pct_end_sound)
    then have s: "s = (?a @ ?ws @ ''%'') @ s'" by (metis append.assoc append_Cons append_Nil takeWhile_dropWhile_id)
    have "take (length s - length s') s = ?a @ ?ws @ ''%''"
      by (rule take_prefix) (rule s)
    moreover have "length s' < length s" by (subst s) simp
    moreover have "is_decimal ?a" using a by (auto simp: is_decimal_iff)
    moreover have "list_all is_space ?ws" by (auto simp: list_all_iff dest: set_takeWhileD)
    ultimately show ?thesis unfolding is_percent_token_def by blast
  qed
qed

lemma traverse_map: "(\<And>x. x \<in> set xs \<Longrightarrow> f x = Inr (g x)) \<Longrightarrow> traverse f xs = Inr (map g xs)"
  by (induction xs) simp_all


lemma traverse_total:
  assumes "\<forall>x\<in>set xs. \<exists>y. f x = Inr y"
  shows "\<exists>ys. traverse f xs = Inr ys"
  using assms
proof (induction xs)
  case Nil
  then show ?case by simp
next
  case (Cons x xs)
  then obtain y ys where "f x = Inr y" "traverse f xs = Inr ys" by auto
  then show ?case by simp
qed




lemma no_dot_digits:
  assumes "is_digits a"
  shows "takeWhile (\<lambda>c. c \<noteq> CHR ''.'') (a @ r) = a @ takeWhile (\<lambda>c. c \<noteq> CHR ''.'') r"
    and "dropWhile (\<lambda>c. c \<noteq> CHR ''.'') (a @ r) = dropWhile (\<lambda>c. c \<noteq> CHR ''.'') r"
  using assms
  by (auto simp: is_digits_def list_all_iff takeWhile_append2 dropWhile_append2 digit_not_dot)


lemma py_float_digits:
  assumes "is_digits a"
  shows "py_float a = Inr (fl_of_rat (int (nat_of_digits a)) 1)"
proof -
  have tw: "takeWhile (\<lambda>c. c \<noteq> CHR ''.'') a = a" and dw: "dropWhile (\<lambda>c. c \<noteq> CHR ''.'') a = []"
    using no_dot_digits [OF assms, of "[]"] by simp_all
  show ?thesis unfolding py_float_def Let_def tw dw using assms by simp
qed


lemma py_float_frac:
  assumes "is_digits a" "is_digits b"
  shows "py_float (a @ CHR ''.'' # b) =
         Inr (fl_of_rat (int (nat_of_digits (a @ b))) (10 ^ length b))"
proof -
  have tw: "takeWhile (\<lambda>c. c \<noteq> CHR ''.'') (a @ CHR ''.'' # b) = a"
   and dw: "dropWhile (\<lambda>c. c \<noteq> CHR ''.'') (a @ CHR ''.'' # b) = CHR ''.'' # b"
    using no_dot_digits [OF assms(1), of "CHR ''.'' # b"] by simp_all
  show ?thesis unfolding py_float_def Let_def tw dw using assms by simp
qed


lemma py_float_decimal: "is_decimal m \<Longrightarrow> \<exists>x. py_float m = Inr x"
  by (auto simp: is_decimal_iff py_float_digits py_float_frac)


lemma py_int_digits: "is_digits a \<Longrightarrow> py_int a = Inr (int (nat_of_digits a))"
  by (simp add: py_int_def)


lemma is_decimal_ends:
  assumes "is_decimal d"
  shows "d \<noteq> []" "is_digit (hd d)" "is_digit (last d)"
  using assms by (auto simp: is_decimal_iff is_digits_props hd_append is_digits_def)


lemma dropWhile_id: "xs = [] \<or> \<not> P (hd xs) \<Longrightarrow> dropWhile P xs = xs"
  by (cases xs) auto


lemma strip_percent_token:
  assumes "is_decimal d" "list_all is_space ws"
  shows "strip (rstrip_char CHR ''%'' (d @ ws @ ''%'')) = d"
proof -
  note e = is_decimal_ends [OF assms(1)]
  have h: "hd (rev ws @ rev d) \<noteq> CHR ''%''"
  proof (cases ws rule: rev_cases)
    case Nil
    then show ?thesis using e by (simp add: hd_rev digit_not_percent)
  next
    case (snoc ws' w)
    then have "is_space w" using assms(2) by simp
    then show ?thesis using snoc by (simp add: space_not_percent)
  qed
  have "dropWhile (\<lambda>c. c = CHR ''%'') (rev ws @ rev d) = rev ws @ rev d"
    by (rule dropWhile_id) (use h in simp)
  then have r: "rstrip_char CHR ''%'' (d @ ws @ ''%'') = d @ ws"
    by (simp add: rstrip_char_def)
  have 1: "dropWhile is_space (d @ ws) = d @ ws"
    by (rule dropWhile_id) (use e in \<open>simp add: hd_append digit_not_space\<close>)
  have 2: "dropWhile is_space (rev ws @ rev d) = dropWhile is_space (rev d)"
    by (rule dropWhile_append2) (use assms(2) in \<open>auto simp: list_all_iff\<close>)
  have 3: "dropWhile is_space (rev d) = rev d"
    by (rule dropWhile_id) (use e in \<open>simp add: hd_rev digit_not_space\<close>)
  show ?thesis by (simp add: strip_def r 1 2 3)
qed


lemma findall_integer_digits: "\<forall>m\<in>set (findall_from rx_integer pv s). is_digits m"
  using findall_all [where r = rx_integer and P = is_digits] match_integer_sound by blast

lemma findall_number_decimal: "\<forall>m\<in>set (findall_from rx_number pv s). is_decimal m"
  using findall_all [where r = rx_number and P = is_decimal] match_number_sound by blast

lemma findall_percent_token: "\<forall>m\<in>set (findall_from rx_percent pv s). is_percent_token m"
  using findall_all [where r = rx_percent and P = is_percent_token] match_percent_sound by blast

lemma extract_numbers_legacy_eq:
  "extract_numbers_legacy text =
     Inr (map (\<lambda>m. int (nat_of_digits m)) (findall rx_integer text))"
  unfolding extract_numbers_legacy_def findall_def
proof (rule traverse_map)
  fix m assume "m \<in> set (findall_from rx_integer None text)"
  then have "is_digits m" using findall_integer_digits [of None "text"] by blast
  then show "py_int m = Inr (int (nat_of_digits m))" by (rule py_int_digits)
qed


lemma percent_token_float:
  assumes "is_percent_token p"
  shows "\<exists>y. py_float (strip (rstrip_char CHR ''%'' p)) = Inr y"
proof -
  from assms obtain d ws where p: "p = d @ ws @ ''%''" and d: "is_decimal d"
    and ws: "list_all is_space ws"
    unfolding is_percent_token_def by blast
  have "strip (rstrip_char CHR ''%'' p) = d"
    unfolding p using d ws by (rule strip_percent_token)
  then show ?thesis using py_float_decimal [OF d] by simp
qed

lemma extract_numbers_and_percents_total:
  "\<exists>vals pcts. extract_numbers_and_percents text = Inr (vals, pcts)"
proof -
  have "\<forall>p\<in>set (findall rx_percent text). \<exists>y. py_float (strip (rstrip_char CHR ''%'' p)) = Inr y"
    using findall_percent_token [of None "text"] percent_token_float
    unfolding findall_def by blast
  from traverse_total [OF this] obtain pcts where p:
    "traverse (\<lambda>p. py_float (strip (rstrip_char CHR ''%'' p))) (findall rx_percent text) = Inr pcts"
    by blast
  have "\<forall>n\<in>set (findall rx_number text). \<exists>y. py_float n = Inr y"
    using findall_number_decimal [of None "text"] py_float_decimal
    unfolding findall_def by blast
  from traverse_total [OF this] obtain vals where v:
    "traverse py_float (findall rx_number text) = Inr vals"
    by blast
  show ?thesis unfolding extract_numbers_and_percents_def Let_def p v by simp
qed

section \<open>The policies of the validation, one by one\<close>

lemma extract_numbers_legacy_ints: "extract_numbers_legacy response = Inr (legacy_ints response)"
  by (simp add: extract_numbers_legacy_eq legacy_ints_def)

lemma validate_season_record:
  "validate_response self now response ''season_record'' =
     Inr (if str_in (season_record (gt self)) response
             \<or> str_in (py_str_int (wins (gt self)) @ ''-'' @ py_str_int (losses (gt self))) response
          then (initial_result ''season_record'' now response)
                 \<lparr>accuracy := True, expected_answer := Some (ExpStr (season_record (gt self)))\<rparr>
          else (initial_result ''season_record'' now response)
                 \<lparr>error_type := Some ''incorrect_record'',
                  result_notes := [Note_Expected (season_record (gt self))],
                  expected_answer := Some (ExpStr (season_record (gt self)))\<rparr>)"
  unfolding validate_response_def extract_numbers_legacy_ints initial_result_def
  by (simp add: Let_def)

lemma validate_total_games:
  "validate_response self now response ''total_games'' =
     Inr (if total_games (gt self) \<in> set (legacy_ints response)
          then (initial_result ''total_games'' now response)
                 \<lparr>accuracy := True, expected_answer := Some (ExpInt (total_games (gt self)))\<rparr>
          else (initial_result ''total_games'' now response)
                 \<lparr>error_type := Some ''incorrect_calculation'',
                  result_notes := [Note_Expected_found_numbers (total_games (gt self))
                                     (legacy_ints response)],
                  expected_answer := Some (ExpInt (total_games (gt self)))\<rparr>)"
  unfolding validate_response_def extract_numbers_legacy_ints initial_result_def
  by (auto simp add: Let_def)

lemma validate_top_scorer:
  "validate_response self now response ''top_scorer'' =
     Inr (if str_in (lower (top_scorer (gt self))) (lower response)
          then (initial_result ''top_scorer'' now response)
                 \<lparr>accuracy := True,
                  result_notes := (if top_scorer_goals (gt self) \<in> set (legacy_ints response)
                                   then [Note_Correct_goal_count] else []),
                  expected_answer := Some (ExpStr (top_scorer (gt self) @ '' (''
                                   @ py_str_int (top_scorer_goals (gt self)) @ '' goals)''))\<rparr>
          else (initial_result ''top_scorer'' now response)
                 \<lparr>error_type := Some ''incorrect_player'',
                  result_notes := [Note_Expected (top_scorer (gt self))],
                  expected_answer := Some (ExpStr (top_scorer (gt self) @ '' (''
                                   @ py_str_int (top_scorer_goals (gt self)) @ '' goals)''))\<rparr>)"
  unfolding validate_response_def extract_numbers_legacy_ints initial_result_def
  by (simp add: Let_def)

lemma validate_team_goals:
  "validate_response self now response ''team_goals'' =
     Inr (if total_goals (gt self) \<in> set (legacy_ints response)
          then (initial_result ''team_goals'' now response)
                 \<lparr>accuracy := True, expected_answer := Some (ExpInt (total_goals (gt self)))\<rparr>
          else (initial_result ''team_goals'' now response)
                 \<lparr>error_type := Some ''incorrect_calculation'',
                  result_notes := [Note_Expected_found (total_goals (gt self))
                                     (legacy_ints response)],
                  expected_answer := Some (ExpInt (total_goals (gt self)))\<rparr>)"
  unfolding validate_response_def extract_numbers_legacy_ints initial_result_def
  by (auto simp add: Let_def)

lemma validate_top_assists:
  "validate_response self now response ''top_assists'' =
     Inr (if str_in (lower (top_assist (gt self))) (lower response)
          then (initial_result ''top_assists'' now response)
                 \<lparr>accuracy := True,
                  expected_answer := Some (ExpStr (top_assist (gt self) @ '' (''
                                   @ py_str_int (top_assist_count (gt self)) @ '' assists)''))\<rparr>
          else (initial_result ''top_assists'' now response)
                 \<lparr>error_type := Some ''incorrect_player'',
                  result_notes := [Note_Expected (top_assist (gt self))],
                  expected_answer := Some (ExpStr (top_assist (gt self) @ '' (''
                                   @ py_str_int (top_assist_count (gt self)) @ '' assists)''))\<rparr>)"
  unfolding validate_response_def extract_numbers_legacy_ints initial_result_def
  by (simp add: Let_def)

lemma validate_shooting_analysis:
  assumes "extract_numbers_and_percents response = Inr (vals, pcts)"
  shows "validate_response self now response ''shooting_analysis'' =
     Inr (let hits = count_hits (lower response) (pcts @ vals)
                       (map (\<lambda>(player, pct). (lower player, pct)) (top3_shooting (gt self))) 0
          in if 2 \<le> hits
             then (initial_result ''shooting_analysis'' now response)
                    \<lparr>accuracy := True,
                     expected_answer := Some (ExpTop3 (top3_shooting (gt self)))\<rparr>
             else (initial_result ''shooting_analysis'' now response)
                    \<lparr>error_type := Some ''incorrect_shooting_analysis'',
                     result_notes := [Note_Matched hits tol],
                     expected_answer := Some (ExpTop3 (top3_shooting (gt self)))\<rparr>)"
  unfolding validate_response_def extract_numbers_legacy_ints initial_result_def assms
  by (simp add: Let_def)

lemma validate_offensive_balance:
  assumes "extract_numbers_and_percents response = Inr (vals, pcts)"
  shows "validate_response self now response ''offensive_balance'' =
     (case any_rounds_to (count_ge_10_goals (gt self)) vals of
        Inl e \<Rightarrow> Inl e
      | Inr ok \<Rightarrow>
          Inr (if ok
               then (initial_result ''offensive_balance'' now response)
                      \<lparr>accuracy := True,
                       expected_answer := Some (ExpInt (count_ge_10_goals (gt self)))\<rparr>
               else (initial_result ''offensive_balance'' now response)
                      \<lparr>error_type := Some ''incorrect_offensive_depth'',
                       result_notes := [Note_Expected_found_vals (count_ge_10_goals (gt self)) vals],
                       expected_answer := Some (ExpInt (count_ge_10_goals (gt self)))\<rparr>))"
  unfolding validate_response_def extract_numbers_legacy_ints initial_result_def assms
  by (simp add: Let_def split: sum.splits)

lemma validate_strategic_analysis:
  "validate_response self now response ''strategic_analysis'' =
     Inr (let scores = score_strategic_response self response;
              ok = (3 \<le> specificity scores \<and> 3 \<le> actionability scores \<and> 3 \<le> plausibility scores)
          in (initial_result ''strategic_analysis'' now response)
               \<lparr>accuracy := ok,
                error_type := (if ok then None else Some ''insufficient_rubric_scores''),
                result_notes := [Note_Scores scores],
                expected_answer := Some (ExpStr
                  ''Rubric-based (Specificity, Actionability, Plausibility >= 3)'')\<rparr>)"
  unfolding validate_response_def extract_numbers_legacy_ints initial_result_def
  by (simp add: Let_def)

lemma validate_other:
  assumes "qt \<notin> {''season_record'', ''total_games'', ''top_scorer'', ''team_goals'',
                  ''top_assists'', ''shooting_analysis'', ''offensive_balance'',
                  ''strategic_analysis''}"
  shows "validate_response self now response qt = Inr (initial_result qt now response)"
  using assms
  unfolding validate_response_def extract_numbers_legacy_ints initial_result_def
  by (simp add: Let_def)

section \<open>Evaluation on the dataset\<close>

lemmas fl_eval = fl_of_rat_def nearest_double_def floor_log2_def rhe_div_def bit_length.simps Let_def
  fl_of_scaled_def float_of_int_def

lemmas char_eval = code_def is_digit_def is_word_def is_space_def lower_char_def lower_def
  char_of_def bit_Suc_0_iff


lemmas dataset_defs = create_syracuse_2024_dataset_def data_frame_def col_Player_def col_Jersey_def
  col_Goals_def col_Assists_def col_Points_def col_Shots_def col_Games_Played_def



section \<open>The claims\<close>



lemma validate_timestamp:
  "validate_response self now response qt =
   map_sum id (\<lambda>res. res\<lparr>timestamp := now\<rparr>) (validate_response self [] response qt)"
proof -
  obtain vals pcts where e: "extract_numbers_and_percents response = Inr (vals, pcts)"
    using extract_numbers_and_percents_total by blast
  consider "qt = ''season_record''" | "qt = ''total_games''" | "qt = ''top_scorer''"
    | "qt = ''team_goals''" | "qt = ''top_assists''" | "qt = ''shooting_analysis''"
    | "qt = ''offensive_balance''" | "qt = ''strategic_analysis''"
    | "qt \<notin> {''season_record'', ''total_games'', ''top_scorer'', ''team_goals'',
                  ''top_assists'', ''shooting_analysis'', ''offensive_balance'',
                  ''strategic_analysis''}"
    by (simp only: insert_iff empty_iff) metis
  then show ?thesis
  proof cases
    case 1
    show ?thesis unfolding 1 validate_season_record
      by (simp add: initial_result_def)
  next
    case 2
    show ?thesis unfolding 2 validate_total_games
      by (simp add: initial_result_def)
  next
    case 3
    show ?thesis unfolding 3 validate_top_scorer
      by (simp add: initial_result_def)
  next
    case 4
    show ?thesis unfolding 4 validate_team_goals
      by (simp add: initial_result_def)
  next
    case 5
    show ?thesis unfolding 5 validate_top_assists
      by (simp add: initial_result_def)
  next
    case 6
    show ?thesis unfolding 6 validate_shooting_analysis [OF e]
      by (simp add: initial_result_def Let_def)
  next
    case 7
    show ?thesis unfolding 7 validate_offensive_balance [OF e]
      by (simp add: initial_result_def split: sum.splits)
  next
    case 8
    show ?thesis unfolding 8 validate_strategic_analysis
      by (simp add: initial_result_def Let_def)
  next
    case 9
    show ?thesis unfolding validate_other [OF 9]
      by (simp add: initial_result_def)
  qed
qed

text \<open>
  C7. Two calls of \<open>validate_response\<close> with the same validator, response and question
  type, made at different times, return the same error or results that agree in every
  field but the timestamp.
\<close>

theorem validate_deterministic:
  "erase_timestamp (validate_response self now1 response qt) =
   erase_timestamp (validate_response self now2 response qt)"
proof -
  have *: "erase_timestamp (validate_response self now response qt) =
        erase_timestamp (validate_response self [] response qt)" for now
    by (subst validate_timestamp) (cases "validate_response self [] response qt";
        simp add: erase_timestamp_def)
  show ?thesis by (simp only: * [of now1] * [of now2])
qed

lemma digits_then_nondigit:
  assumes "is_digits b" "\<not> word_after post"
  shows "takeWhile is_digit (b @ post) = b" "dropWhile is_digit (b @ post) = post"
proof -
  have p: "post = [] \<or> \<not> is_digit (hd post)"
    using assms(2) digit_is_word by (cases post) (auto simp: word_after_def)
  have b: "\<forall>c\<in>set b. is_digit c" using assms(1) by (simp add: is_digits_props)
  have "dropWhile is_digit post = post" by (rule dropWhile_id) (rule p)
  then show "dropWhile is_digit (b @ post) = post" using b by (simp add: dropWhile_append2)
  have "takeWhile is_digit post = []" using p by (cases post) auto
  then show "takeWhile is_digit (b @ post) = b" using b by (simp add: takeWhile_append2)
qed

lemma word_after_digits: "is_digits a \<Longrightarrow> word_after (a @ r)"
  by (cases a) (auto simp: word_after_def is_digits_def digit_is_word)







lemma findall_no_digit:
  assumes none: "\<And>pv s. s = [] \<or> \<not> is_digit (hd s) \<Longrightarrow> rx_match r (pv, s) = []"
    and nd: "\<forall>c\<in>set s. \<not> is_digit c"
  shows "findall_from r pv s = []"
  using nd
proof (induction s arbitrary: pv)
  case Nil
  then show ?case by (simp add: findall_nomatch none)
next
  case (Cons c cs)
  then have "rx_match r (pv, c # cs) = []" by (simp add: none)
  then show ?case using Cons by (simp add: findall_nomatch)
qed

lemma findall_no_digit_all:
  assumes "\<forall>c\<in>set s. \<not> is_digit c"
  shows "findall rx_integer s = []" "findall rx_number s = []" "findall rx_percent s = []"
  unfolding findall_def
  by (rule findall_no_digit [OF _ assms]; auto simp: match_integer match_number match_percent)+

lemma count_hits_no_candidates: "count_hits response_lower [] expected hits = hits"
  by (induction expected arbitrary: hits) auto

text \<open>
  C6. For a response without digits (the empty response among them) the extraction of
  numbers, of percentages and of integers returns empty lists, and the four policies that
  depend on numbers return a result with accuracy false and an error kind; no error is
  raised.
\<close>

theorem no_digits_fail_closed:
  assumes "\<forall>c\<in>set response. \<not> is_digit c"
  shows "extract_numbers_and_percents response = Inr ([], [])
       \<and> extract_numbers_legacy response = Inr []
       \<and> (\<forall>qt\<in>{''total_games'', ''team_goals'', ''shooting_analysis'', ''offensive_balance''}.
            \<exists>res. validate_response self now response qt = Inr res
                  \<and> \<not> accuracy res \<and> error_type res \<noteq> None)"
proof -
  note f = findall_no_digit_all [OF assms]
  have e: "extract_numbers_and_percents response = Inr ([], [])"
    by (simp add: extract_numbers_and_percents_def f)
  have l: "legacy_ints response = []" by (simp add: legacy_ints_def f)
  show ?thesis
    by (simp add: e extract_numbers_legacy_ints l validate_total_games validate_team_goals
          validate_shooting_analysis [OF e] validate_offensive_balance [OF e]
          initial_result_def Let_def count_hits_no_candidates)
qed

theorem no_digits_fail_closed_witness:
  "extract_numbers_and_percents ''Syracuse had a great season'' = Inr ([], [])
   \<and> extract_numbers_legacy ''Syracuse had a great season'' = Inr []
   \<and> (\<exists>res. validate_response syracuse ''2024-05-01'' ''Syracuse had a great season''
              ''total_games'' = Inr res \<and> \<not> accuracy res \<and> error_type res \<noteq> None)
   \<and> (\<exists>res. validate_response syracuse ''2024-05-01'' ''Syracuse had a great season''
              ''team_goals'' = Inr res \<and> \<not> accuracy res \<and> error_type res \<noteq> None)
   \<and> (\<exists>res. validate_response syracuse ''2024-05-01'' ''Syracuse had a great season''
              ''shooting_analysis'' = Inr res \<and> \<not> accuracy res \<and> error_type res \<noteq> None)
   \<and> (\<exists>res. validate_response syracuse ''2024-05-01'' ''Syracuse had a great season''
              ''offensive_balance'' = Inr res \<and> \<not> accuracy res \<and> error_type res \<noteq> None)
   \<and> extract_numbers_and_percents [] = Inr ([], [])
   \<and> extract_numbers_legacy [] = Inr []
   \<and> (\<exists>res. validate_response syracuse ''2024-05-01'' [] ''total_games'' = Inr res
          \<and> \<not> accuracy res \<and> error_type res \<noteq> None)
   \<and> (\<exists>res. validate_response syracuse ''2024-05-01'' [] ''offensive_balance'' = Inr res
          \<and> \<not> accuracy res \<and> error_type res \<noteq> None)"
proof -
  have a: "\<forall>c\<in>set []. \<not> is_digit c" by simp
  have b: "\<forall>c\<in>set ''Syracuse had a great season''. \<not> is_digit c"
    by (simp add: char_eval)
  show ?thesis
    using no_digits_fail_closed [OF b, of syracuse "''2024-05-01''"]
      no_digits_fail_closed [OF a, of syracuse "''2024-05-01''"]
    by simp
qed















lemma traverse_Cons_Inr:
  assumes "traverse f (x # xs) = Inr ys"
  obtains y ys' where "ys = y # ys'" "f x = Inr y" "traverse f xs = Inr ys'"
  using assms by (auto split: sum.splits)









lemma search_digit: "search_from rx_digit pv s = list_ex is_digit s"
  by (induction s arbitrary: pv) (simp_all add: rx_digit_def)

lemma is_digit_lower_char: "is_digit (lower_char c) = is_digit c"
  unfolding lower_char_def is_digit_def code_def Let_def
  by (auto simp: mod_if)

lemma list_ex_digit_lower: "list_ex is_digit (lower s) = list_ex is_digit s"
  by (induction s) (simp_all add: lower_def is_digit_lower_char)

lemma count_in_lower:
  "count_in (map lower ns) t = int (length (filter (\<lambda>n. str_in (lower n) t) ns))"
  by (simp add: count_in_def filter_map comp_def)

lemma player_names: "map Player (df syracuse) = col_Player"
  by (simp add: syracuse_def dataset_defs)

lemma lowered_names:
  "map lower col_Player =
    [''meaghan tyrrell'', ''olivia adamson'', ''emma ward'', ''sam swart'',
     ''payton rowley'', ''maddy baxter'', ''savannah sweitzer'', ''emma madnick'',
     ''jody cerullo'', ''grace britton'', ''kendall rose'', ''kaci benoit'',
     ''sloane clark'', ''katie goodale'', ''mackenzie rich'', ''victoria reid'',
     ''ryann banks'', ''hallie simpkins'', ''mckenzie oleen'', ''ruby hnatkowiak'',
     ''sydney pirreca'', ''carlie desimone'', ''ally quirk'', ''tate paulson'',
     ''ryan johnson'', ''georgia sexton-stone'', ''gwenna gento'', ''ezra lahan'',
     ''ella bree'', ''talia waders'', ''jenna marino'', ''ana horvit'',
     ''delaney swartout'', ''daniella guyette'']"
  by (simp add: col_Player_def char_eval)

lemma names_distinct: "distinct (map lower col_Player)"
  unfolding lowered_names by simp

lemma names_nonblank: "list_all (\<lambda>n. strip n \<noteq> []) col_Player"
  by (simp add: col_Player_def strip_def is_space_def code_def)

lemma specificity_eq:
  "specificity (score_strategic_response self text) =
     min 5 (1 + min 4 (int (length (filter (\<lambda>n. str_in (lower n) (lower text))
                                 (filter (\<lambda>n. strip n \<noteq> []) (map Player (df self))))) div 2)
              + (if list_ex is_digit text then 1 else 0))"
  unfolding score_strategic_response_def Let_def
  by (simp add: count_in_lower search_def search_digit list_ex_digit_lower)

lemma syracuse_names_nonblank:
  "filter (\<lambda>n. strip n \<noteq> []) (map Player (df syracuse)) = col_Player"
  unfolding player_names using names_nonblank by (simp add: list_all_iff)

lemma syracuse_mentions:
  "length (filter (\<lambda>n. str_in (lower n) t)
             (filter (\<lambda>n. strip n \<noteq> []) (map Player (df syracuse)))) =
   length (filter (\<lambda>n. str_in n t) (map lower col_Player))"
  unfolding syracuse_names_nonblank by (simp add: filter_map comp_def)

text \<open>
  C3 (as amended). The specificity score is 1, plus 1 for every two known player names
  that occur in the text as substrings, letter case ignored (at most 4 for this part),
  plus 1 when the text has a digit, and at most 5 in all. The names of the dataset are
  distinct and none is blank, so the names that occur are counted once each.
\<close>

theorem specificity_counts_substrings:
  "specificity (score_strategic_response self text) =
     min 5 (1 + min 4 (int (length (filter (\<lambda>n. str_in (lower n) (lower text))
                                 (filter (\<lambda>n. strip n \<noteq> []) (map Player (df self))))) div 2)
              + (if list_ex is_digit text then 1 else 0))
   \<and> distinct (map lower (map Player (df syracuse)))
   \<and> list_all (\<lambda>n. strip n \<noteq> []) (map Player (df syracuse))"
  unfolding player_names
  by (simp add: specificity_eq names_distinct names_nonblank)

theorem specificity_counts_substrings_witness:
  "specificity (score_strategic_response syracuse ''Emma Ward and Sam Swart scored 73 goals'') = 3"
proof -
  have l: "lower ''Emma Ward and Sam Swart scored 73 goals'' = ''emma ward and sam swart scored 73 goals''"
    by (simp add: char_eval)
  have c: "filter (\<lambda>n. str_in n ''emma ward and sam swart scored 73 goals'') (map lower col_Player)
        = [''emma ward'', ''sam swart'']"
    unfolding lowered_names by simp
  have d: "list_ex is_digit ''Emma Ward and Sam Swart scored 73 goals'' = True"
    by (simp add: char_eval)
  note T = specificity_counts_substrings
            [of syracuse "''Emma Ward and Sam Swart scored 73 goals''", THEN conjunct1,
             unfolded syracuse_mentions l c d]
  show ?thesis unfolding T by simp
qed

theorem specificity_whole_token_counterexample:
  "specificity (score_strategic_response syracuse ''xemma wardx xsam swartx'') = 2
   \<and> spec_specificity (map Player (df syracuse)) ''xemma wardx xsam swartx'' = 1"
proof -
  have l: "lower ''xemma wardx xsam swartx'' = ''xemma wardx xsam swartx''"
    by (simp add: char_eval)
  have c: "filter (\<lambda>n. str_in n ''xemma wardx xsam swartx'') (map lower col_Player)
           = [''emma ward'', ''sam swart'']"
    unfolding lowered_names by simp
  have d: "list_ex is_digit ''xemma wardx xsam swartx'' = False"
    by (simp add: char_eval)
  have w0: "filter (\<lambda>n. whole_token_in n ''xemma wardx xsam swartx'') (map lower col_Player) = []"
    unfolding lowered_names
    by (simp add: whole_token_in_def token_here_def word_before_def word_after_def
          is_word_def code_def)
  have w: "filter (\<lambda>n. whole_token_in (lower n) ''xemma wardx xsam swartx'') col_Player = []"
    using w0 unfolding filter_map comp_def by (rule map_is_Nil_conv [THEN iffD1])
  have 1: "specificity (score_strategic_response syracuse ''xemma wardx xsam swartx'') = 2"
    unfolding specificity_eq syracuse_mentions l c d by simp
  have 2: "spec_specificity (map Player (df syracuse)) ''xemma wardx xsam swartx'' = 1"
    unfolding spec_specificity_def player_names l w d by simp
  show ?thesis by (rule conjI [OF 1 2])
qed







lemma bit_length_bounds:
  "0 < n \<Longrightarrow> 2 ^ (bit_length n - 1) \<le> n \<and> n < 2 ^ bit_length n"
proof (induction n rule: bit_length.induct)
  case (1 n)
  show ?case
  proof (cases "n div 2 = 0")
    case True
    with 1(2) have "n = 1" by (simp add: div_eq_0_iff) 
    then show ?thesis by (simp add: bit_length.simps)
  next
    case False
    then have pos: "0 < n div 2" by simp
    from 1(1) [OF _ pos] 1(2)
    have IH: "2 ^ (bit_length (n div 2) - 1) \<le> n div 2" "n div 2 < 2 ^ bit_length (n div 2)"
      by simp_all
    have b: "bit_length n = Suc (bit_length (n div 2))"
      using 1(2) by (subst bit_length.simps) simp
    have bpos: "0 < bit_length (n div 2)"
      using pos by (subst bit_length.simps) simp
    then have "(2::nat) ^ bit_length (n div 2) = 2 * 2 ^ (bit_length (n div 2) - 1)"
      by (cases "bit_length (n div 2)") simp_all
    then have lo: "2 ^ bit_length (n div 2) \<le> n" using IH(1) by linarith
    have hi: "n < 2 * 2 ^ bit_length (n div 2)" using IH(2) by linarith
    show ?thesis unfolding b using lo hi by simp
  qed
qed

lemma floor_log2_big:
  assumes d: "0 < d" and big: "d * 2 ^ N \<le> n"
  shows "int N \<le> floor_log2 n d" and "d * 2 ^ nat (floor_log2 n d) \<le> n"
proof -
  have "0 < d * 2 ^ N" using d by simp
  then have n: "0 < n" using big by linarith
  note bn = bit_length_bounds [OF n]
  note bd = bit_length_bounds [OF d]
  let ?bn = "bit_length n" and ?bd = "bit_length d"
  have bdpos: "0 < ?bd" using d by (subst bit_length.simps) simp
  have a: "2 ^ (?bd - 1) * 2 ^ N \<le> d * (2::nat) ^ N" using bd by simp
  have "(2::nat) ^ (?bd - 1 + N) = 2 ^ (?bd - 1) * 2 ^ N" by (rule power_add)
  then have "(2::nat) ^ (?bd - 1 + N) \<le> n" using a big by linarith
  then have "(2::nat) ^ (?bd - 1 + N) < 2 ^ ?bn" using bn by linarith
  then have "?bd - 1 + N < ?bn" by (simp add: power_strict_increasing_iff)
  then have k: "?bd + N \<le> ?bn" using bdpos by linarith
  define k where "k = ?bn - ?bd"
  have kk: "int ?bn - int ?bd = int k" "N \<le> k" "?bn = ?bd + k"
    using k by (simp_all add: k_def)
  have fl: "floor_log2 n d = (if d * 2 ^ k \<le> n then int k else int k - 1)"
    unfolding floor_log2_def Let_def kk(1) by simp
  show "int N \<le> floor_log2 n d"
  proof (cases "d * 2 ^ k \<le> n")
    case True
    then show ?thesis using fl kk(2) by simp
  next
    case False
    then have "d * 2 ^ N < d * 2 ^ k" using big by linarith
    then have "N < k" using d by (simp add: power_strict_increasing_iff)
    then show ?thesis using fl False by simp
  qed
  show "d * 2 ^ nat (floor_log2 n d) \<le> n"
  proof (cases "d * 2 ^ k \<le> n")
    case True
    then show ?thesis using fl by simp
  next
    case False
    then have "d * 2 ^ N < d * 2 ^ k" using big by linarith
    then have Nk: "N < k" using d by (simp add: power_strict_increasing_iff)
    have "d * 2 ^ (k - 1) < 2 ^ ?bd * 2 ^ (k - 1)" using bd by simp
    also have "\<dots> = 2 ^ (?bn - 1)" using kk Nk by (simp add: power_add [symmetric])
    also have "\<dots> \<le> n" using bn by simp
    finally show ?thesis using fl False Nk by (simp add: nat_diff_distrib')
  qed
qed

lemma nearest_double_overflow:
  assumes d: "0 < d" and big: "d * 2 ^ 1024 \<le> n"
  shows "nearest_double n d = None"
proof -
  define e where "e = nat (floor_log2 n d)"
  have "int 1024 \<le> floor_log2 n d" using d big by (rule floor_log2_big)
  then have e: "floor_log2 n d = int e" "1024 \<le> e"
    by (simp_all add: e_def)
  have e3: "d * 2 ^ e \<le> n"
    unfolding e_def using d big by (rule floor_log2_big)
  have "0 < d * 2 ^ e" using d by simp
  then have n: "n \<noteq> 0" using e3 by linarith
  define q where "q = e - 52"
  have q: "max (floor_log2 n d) (- 1022) - 52 = int q" "972 \<le> q" "e = q + 52"
    using e by (simp_all add: q_def)
  have "d * 2 ^ q \<le> d * 2 ^ e" unfolding q(3) by simp
  then have "d * 2 ^ q \<le> n" using e3 by linarith
  moreover have "0 < d * 2 ^ q" using d by simp
  ultimately have "1 \<le> n div (d * 2 ^ q)"
    by (simp add: less_eq_div_iff_mult_less_eq)
  then have m: "rhe_div n (d * 2 ^ q) \<noteq> 0"
    unfolding rhe_div_def Let_def by (auto split: if_splits)
  show ?thesis
    unfolding nearest_double_def Let_def q(1) using n m q(2)
    by simp
qed

lemma fl_of_rat_overflow: "2 ^ 1024 \<le> n \<Longrightarrow> fl_of_rat (int n) 1 = PInf"
  using nearest_double_overflow [of 1 n] by (simp add: fl_of_rat_def)

lemma py_float_overflow:
  assumes "is_digits a" "2 ^ 1024 \<le> nat_of_digits a"
  shows "py_float a = Inr PInf"
proof -
  have "fl_of_rat (int (nat_of_digits a)) 1 = PInf"
    using assms(2) by (rule fl_of_rat_overflow)
  then show ?thesis unfolding py_float_digits [OF assms(1)] by (simp only:)
qed

lemma findall_number_leading_integer:
  assumes a: "is_digits a" and r: "\<not> word_after rest" "rest = [] \<or> hd rest \<noteq> CHR ''.''"
  shows "findall rx_number (a @ rest) = a # findall_from rx_number (Some (last a)) rest"
proof -
  have dw: "dropWhile is_digit (a @ rest) = rest" "takeWhile is_digit (a @ rest) = a"
    using digits_then_nondigit [OF a r(1)] by simp_all
  have b: "at_boundary None (a @ rest)" "a @ rest \<noteq> []" "is_digit (hd (a @ rest))"
    using a by (simp_all add: at_boundary_def word_before_def word_after_digits is_digits_props
        hd_append)
  have c: "(case rest of [] \<Rightarrow> [] | c # r \<Rightarrow>
              if c = CHR ''.'' \<and> r \<noteq> [] \<and> is_digit (hd r) \<and> \<not> word_after (dropWhile is_digit r)
              then [(Some (last (takeWhile is_digit r)), dropWhile is_digit r)] else []) = []"
    using r(2) by (cases rest) auto
  have m: "rx_match rx_number (None, a @ rest) = [(Some (last a), rest)]"
    unfolding match_number using b r(1)
    by (simp only: dw c if_True if_False simp_thms append_Nil)
  have "a \<noteq> []" using a by (simp add: is_digits_props)
  then have l: "length rest < length (a @ rest)" by simp
  have t: "take (length (a @ rest) - length rest) (a @ rest) = a"
    by (rule take_prefix) simp
  show ?thesis unfolding findall_def by (simp only: findall_match [OF m l] t)
qed

lemma any_rounds_to_finite:
  assumes "list_all (\<lambda>v. v \<noteq> PInf \<and> v \<noteq> NInf \<and> v \<noteq> NaN) vals"
  shows "any_rounds_to k vals = Inr (list_ex (\<lambda>v. py_round v = Inr k) vals)"
  using assms
proof (induction vals)
  case Nil
  then show ?case by simp
next
  case (Cons v vs)
  then show ?case by (cases v) auto
qed

text \<open>
  Where no extracted number is infinite, \<open>offensive_balance\<close> returns a result whose
  accuracy flag tells whether some number rounds to the expected count.
\<close>

lemma offensive_balance_finite:
  assumes e: "extract_numbers_and_percents response = Inr (vals, pcts)"
    and fin: "list_all (\<lambda>v. v \<noteq> PInf \<and> v \<noteq> NInf \<and> v \<noteq> NaN) vals"
  shows "\<exists>res. validate_response self now response ''offensive_balance'' = Inr res
           \<and> accuracy res = list_ex (\<lambda>v. py_round v = Inr (count_ge_10_goals (gt self))) vals
           \<and> error_type res = (if accuracy res then None else Some ''incorrect_offensive_depth'')"
  unfolding validate_offensive_balance [OF e] any_rounds_to_finite [OF fin]
  by (simp add: initial_result_def)

text \<open>
  A response that begins with an integer of at least \<open>2 ^ 1024\<close> makes
  \<open>offensive_balance\<close> raise \<^verbatim>\<open>OverflowError\<close>: the number converts to the infinite
  double, and \<^verbatim>\<open>round\<close> of it raises before any later number is tried.
\<close>

lemma offensive_balance_raises:
  assumes a: "is_digits a" "2 ^ 1024 \<le> nat_of_digits a"
    and r: "\<not> word_after rest" "rest = [] \<or> hd rest \<noteq> CHR ''.''"
  shows "validate_response self now (a @ rest) ''offensive_balance'' = Inl OverflowError"
proof -
  obtain vals pcts where e: "extract_numbers_and_percents (a @ rest) = Inr (vals, pcts)"
    using extract_numbers_and_percents_total by blast
  then have "traverse py_float (a # findall_from rx_number (Some (last a)) rest) = Inr vals"
    unfolding extract_numbers_and_percents_def Let_def findall_number_leading_integer [OF a(1) r]
    by (auto split: sum.splits)
  then obtain vals' where "vals = PInf # vals'"
    by (rule traverse_Cons_Inr) (simp add: py_float_overflow [OF a])
  then show ?thesis
    unfolding validate_offensive_balance [OF e] by simp
qed

lemma nat_of_digits_power_of_ten:
  "nat_of_digits (CHR ''1'' # replicate n CHR ''0'') = 10 ^ n"
proof -
  have "foldl (\<lambda>acc c. 10 * acc + digit_val c) x (replicate n CHR ''0'') = x * 10 ^ n" for x
    by (induction n arbitrary: x) (simp_all add: digit_val_def code_def)
  then show ?thesis by (simp add: nat_of_digits_def digit_val_def code_def)
qed

lemma is_digits_power_of_ten: "is_digits (CHR ''1'' # replicate n CHR ''0'')"
  by (simp add: is_digits_def list_all_iff is_digit_def code_def)

text \<open>
  C4. On the dataset the expected count is 9. The response that consists of the integer
  \<open>10 ^ 309\<close> followed by \<open>9\<close> holds the expected count as a number of its own (the
  extractor returns both), yet \<open>offensive_balance\<close> raises \<^verbatim>\<open>OverflowError\<close> instead of
  returning a result with accuracy true.
\<close>

theorem offensive_balance_overflow:
  "validate_response syracuse now (CHR ''1'' # replicate 309 CHR ''0'' @ '' 9'')
     ''offensive_balance'' = Inl OverflowError
   \<and> findall rx_number (CHR ''1'' # replicate 309 CHR ''0'' @ '' 9'')
       = [CHR ''1'' # replicate 309 CHR ''0'', ''9'']
   \<and> (\<exists>x. py_float ''9'' = Inr x \<and> py_round x = Inr 9)
   \<and> count_ge_10_goals (gt syracuse) = 9"
proof -
  let ?a = "CHR ''1'' # replicate 309 CHR ''0''"
  have a: "is_digits ?a" by (rule is_digits_power_of_ten)
  have big: "2 ^ 1024 \<le> nat_of_digits ?a"
    unfolding nat_of_digits_power_of_ten by simp
  have r: "\<not> word_after '' 9''" "'' 9'' = [] \<or> hd '' 9'' \<noteq> CHR ''.''"
    by (simp_all add: word_after_def is_word_def code_def)
  have 1: "validate_response syracuse now (?a @ '' 9'') ''offensive_balance'' = Inl OverflowError"
    using a big r by (rule offensive_balance_raises)
  have s: "findall_from rx_number (Some (last ?a)) '' 9'' = [''9'']"
    by (subst findall_from.simps, simp add: match_number char_eval,
        subst findall_from.simps,
        simp add: match_number at_boundary_def word_before_def word_after_def char_eval,
        subst findall_from.simps, simp add: match_number)
  have 2: "findall rx_number (?a @ '' 9'') = [?a, ''9'']"
    unfolding findall_number_leading_integer [OF a r] s by simp
  have 3: "py_float ''9'' = Inr (Fin 5066549580791808 (- 49))"
    by (simp add: py_float_def is_digits_def nat_of_digits_def digit_val_def char_eval fl_eval)
  have 4: "py_round (Fin 5066549580791808 (- 49)) = Inr 9"
    by (simp add: rhe_div_def Let_def)
  have 5: "count_ge_10_goals (gt syracuse) = 9" by (simp add: syracuse_def)
  show ?thesis using 1 2 3 4 5 by simp
qed

end
